theory Spec2Isabelle
  imports Complex_Main "HOL-Library.AList"
begin

section \<open>JavaScript values\<close>

text \<open>
  Payloads reach the queue and the storage facade as untyped JavaScript values. The
  checks of the source look at truthiness, at \<open>typeof\<close> and at properties, so the
  model keeps exactly that much of a value: the primitive kinds, and objects as lists
  of named properties, each name once. A property that is missing reads as
  \<open>undefined\<close>, as does any property of a primitive (the source reads none of the
  built-in ones). Numbers are the finite ones and \<open>NaN\<close>; the two infinities are left
  out.
\<close>

datatype jsval =
    JUndefined
  | JNull
  | JBool bool
  | JNum real
  | JNaN
  | JStr string
  | JObject "(string \<times> jsval) list"

fun truthy :: "jsval \<Rightarrow> bool" where
  "truthy JUndefined = False"
| "truthy JNull = False"
| "truthy (JBool b) = b"
| "truthy (JNum x) = (x \<noteq> 0)"
| "truthy JNaN = False"
| "truthy (JStr s) = (s \<noteq> [])"
| "truthy (JObject fs) = True"

fun typeof :: "jsval \<Rightarrow> string" where
  "typeof JUndefined = ''undefined''"
| "typeof JNull = ''object''"
| "typeof (JBool b) = ''boolean''"
| "typeof (JNum x) = ''number''"
| "typeof JNaN = ''number''"
| "typeof (JStr s) = ''string''"
| "typeof (JObject fs) = ''object''"

fun getp :: "jsval \<Rightarrow> string \<Rightarrow> jsval" where
  "getp (JObject fs) k = (case map_of fs k of None \<Rightarrow> JUndefined | Some v \<Rightarrow> v)"
| "getp v k = JUndefined"

text \<open>The \<open>||\<close> of \<open>options.x || default\<close> on a numeric option: absent and zero both
  give the default.\<close>

fun or_default :: "int option \<Rightarrow> int \<Rightarrow> int" where
  "or_default None d = d"
| "or_default (Some n) d = (if n = 0 then d else n)"

section \<open>The update queue (services/queues/priceQueue.js)\<close>

subsection \<open>State\<close>

text \<open>
  An item id is \<open>`${Date.now()}-${random}`\<close>: the clock reading and the random suffix,
  which the environment supplies. \<open>lastError\<close> and \<open>finalError\<close> hold \<open>error.message\<close>.
\<close>

type_synonym item_id = "int \<times> string"

datatype err_msg =
    MsgHandlersFailed nat
  | MsgOf jsval

record item =
  item_id :: item_id
  item_data :: jsval
  addedAt :: int
  retries :: int
  lastError :: "err_msg option"

record failed_item = item +
  finalError :: err_msg
  failedAt :: int

record stats =
  processed :: nat
  failed :: nat
  retried :: nat
  timeouts :: nat

text \<open>
  What one call of a handler does, seen from \<open>processItem\<close>: it returns a promise that
  fulfils or rejects after some milliseconds or never settles, or it throws a value
  before returning any promise. A handler acts on a world \<open>'h\<close> of its own.
\<close>

datatype outcome =
    Fulfilled nat
  | Rejected nat
  | Pending
  | Throws jsval

type_synonym 'h handler = "jsval \<Rightarrow> 'h \<Rightarrow> outcome \<times> 'h"

record 'h price_queue =
  maxQueueSize :: int
  processingTimeout :: int
  handlerTimeout :: int
  maxRetries :: int
  handlers :: "'h handler list"
  processing :: bool
  queue :: "item list"
  failedItems :: "item_id \<rightharpoonup> failed_item"
  stats :: stats

record options =
  opt_maxQueueSize :: "int option"
  opt_processingTimeout :: "int option"
  opt_handlerTimeout :: "int option"
  opt_maxRetries :: "int option"

definition constructor :: "options \<Rightarrow> 'h price_queue" where
  "constructor opts =
     \<lparr> maxQueueSize = or_default (opt_maxQueueSize opts) 1000,
       processingTimeout = or_default (opt_processingTimeout opts) 30000,
       handlerTimeout = or_default (opt_handlerTimeout opts) 5000,
       maxRetries = or_default (opt_maxRetries opts) 3,
       handlers = [],
       processing = False,
       queue = [],
       failedItems = Map.empty,
       stats = \<lparr> processed = 0, failed = 0, retried = 0, timeouts = 0 \<rparr> \<rparr>"

text \<open>The instance the module exports.\<close>

definition priceQueue :: "'h price_queue" where
  "priceQueue =
     constructor \<lparr> opt_maxQueueSize = Some 1000, opt_processingTimeout = Some 30000,
                   opt_handlerTimeout = Some 5000, opt_maxRetries = Some 3 \<rparr>"

datatype queue_error =
    QueueFull int
  | InvalidQueueData
  | TypeError

subsection \<open>Registration and admission\<close>

text \<open>\<open>process\<close> adds a handler to the set of handlers; what is not a function has no
  place in the type. A set keeps a member it already has where it is.\<close>

definition process :: "'h handler \<Rightarrow> 'h price_queue \<Rightarrow> 'h price_queue" where
  "process handler q =
     (if handler \<in> set (handlers q) then q else q\<lparr>handlers := handlers q @ [handler]\<rparr>)"

definition validateData :: "jsval \<Rightarrow> bool" where
  "validateData d = (if \<not> truthy d \<or> typeof d \<noteq> ''object'' then False else True)"

definition generateItemId :: "int \<Rightarrow> string \<Rightarrow> item_id" where
  "generateItemId now rnd = (now, rnd)"

subsection \<open>Processing one item\<close>

text \<open>
  \<open>processItem\<close> calls the handlers in registration order. A handler that throws stops
  the \<open>map\<close>: the handlers after it are not called and the thrown value is the failure.
  Otherwise every promise is raced against the handler timeout (a promise that settles
  no later than the timer keeps its result) and \<open>allSettled\<close> waits for the slowest.
\<close>

fun call_handlers :: "'h handler list \<Rightarrow> jsval \<Rightarrow> 'h \<Rightarrow> (jsval + outcome list) \<times> 'h" where
  "call_handlers [] d h = (Inr [], h)"
| "call_handlers (f # fs) d h =
     (case f d h of
        (Throws v, h') \<Rightarrow> (Inl v, h')
      | (out, h') \<Rightarrow>
          (case call_handlers fs d h' of
             (Inl v, h'') \<Rightarrow> (Inl v, h'')
           | (Inr outs, h'') \<Rightarrow> (Inr (out # outs), h'')))"

fun race :: "int \<Rightarrow> outcome \<Rightarrow> bool \<times> int" where
  "race T (Fulfilled d) = (if int d \<le> max 0 T then (True, int d) else (False, max 0 T))"
| "race T (Rejected d) = (if int d \<le> max 0 T then (False, int d) else (False, max 0 T))"
| "race T out = (False, max 0 T)"

datatype failure =
    HandlersFailed nat
  | HandlerThrew jsval

text \<open>The result of \<open>processItem\<close>: the failure if it throws, the milliseconds it took,
  and the handlers' world.\<close>

definition processItem :: "'h price_queue \<Rightarrow> item \<Rightarrow> 'h \<Rightarrow> failure option \<times> int \<times> 'h" where
  "processItem q it h =
     (case call_handlers (handlers q) (item_data it) h of
        (Inl v, h') \<Rightarrow> (Some (HandlerThrew v), 0, h')
      | (Inr outs, h') \<Rightarrow>
          (let results = map (race (handlerTimeout q)) outs;
               elapsed = fold max (map snd results) 0;
               nfailed = length (filter (\<lambda>r. \<not> fst r) results)
           in if nfailed > 0 then (Some (HandlersFailed nfailed), elapsed, h')
              else (None, elapsed, h')))"

text \<open>\<open>error.message\<close>: reading it from a thrown \<open>null\<close> or \<open>undefined\<close> is itself a
  \<open>TypeError\<close>.\<close>

fun message :: "failure \<Rightarrow> err_msg option" where
  "message (HandlersFailed n) = Some (MsgHandlersFailed n)"
| "message (HandlerThrew JUndefined) = None"
| "message (HandlerThrew JNull) = None"
| "message (HandlerThrew v) = Some (MsgOf (getp v ''message''))"

subsection \<open>Failed items\<close>

definition incr_failed :: "'h price_queue \<Rightarrow> 'h price_queue" where
  "incr_failed q = q\<lparr>stats := (stats q)\<lparr>failed := failed (stats q) + 1\<rparr>\<rparr>"

definition incr_retried :: "'h price_queue \<Rightarrow> 'h price_queue" where
  "incr_retried q = q\<lparr>stats := (stats q)\<lparr>retried := retried (stats q) + 1\<rparr>\<rparr>"

definition incr_processed :: "'h price_queue \<Rightarrow> 'h price_queue" where
  "incr_processed q = q\<lparr>stats := (stats q)\<lparr>processed := processed (stats q) + 1\<rparr>\<rparr>"

definition incr_timeouts :: "'h price_queue \<Rightarrow> 'h price_queue" where
  "incr_timeouts q = q\<lparr>stats := (stats q)\<lparr>timeouts := timeouts (stats q) + 1\<rparr>\<rparr>"

text \<open>
  \<open>handleFailedItem\<close> at clock reading \<open>now\<close>. The item has been shifted off the queue by
  the caller. When \<open>error.message\<close> throws, what was done before stays done (the counter,
  and on the retry branch the item's own count) and the item is in neither place.
\<close>

definition handleFailedItem ::
  "'h price_queue \<Rightarrow> item \<Rightarrow> failure \<Rightarrow> int \<Rightarrow> queue_error option \<times> 'h price_queue" where
  "handleFailedItem q it err now =
     (let q1 = incr_failed q in
      if retries it < maxRetries q1 then
        (case message err of
           None \<Rightarrow> (Some TypeError, q1)
         | Some m \<Rightarrow>
             (None, (incr_retried q1)\<lparr>queue :=
                queue q1 @ [it\<lparr>retries := retries it + 1, lastError := Some m\<rparr>]\<rparr>))
      else
        (case message err of
           None \<Rightarrow> (Some TypeError, q1)
         | Some m \<Rightarrow>
             (None, q1\<lparr>failedItems := (failedItems q1)(item_id it \<mapsto>
                item.extend it \<lparr>finalError = m, failedAt = now\<rparr>)\<rparr>)))"

text \<open>The hourly sweep of the failure log, at clock reading \<open>now\<close>.\<close>

definition cleanupFailedItems :: "int \<Rightarrow> 'h price_queue \<Rightarrow> 'h price_queue" where
  "cleanupFailedItems now q =
     (let oneHourAgo = now - 60 * 60 * 1000
      in q\<lparr>failedItems := (\<lambda>k. case failedItems q k of
                None \<Rightarrow> None
              | Some f \<Rightarrow> (if failedAt f < oneHourAgo then None else Some f))\<rparr>)"

subsection \<open>The drain loop\<close>

text \<open>
  One turn of the \<open>while\<close> body after the timeout check, for the item at the head: shift
  it, process it, and count it or hand it to \<open>handleFailedItem\<close>. The clock moves on by
  the time \<open>processItem\<close> took. The first component is the exception that leaves the
  loop, if any.
\<close>

definition drain_item ::
  "'h price_queue \<Rightarrow> item \<Rightarrow> int \<Rightarrow> 'h \<Rightarrow> queue_error option \<times> 'h price_queue \<times> int \<times> 'h" where
  "drain_item q it now h =
     (let q1 = q\<lparr>queue := tl (queue q)\<rparr> in
      case processItem q1 it h of
        (None, elapsed, h') \<Rightarrow> (None, incr_processed q1, now + elapsed, h')
      | (Some err, elapsed, h') \<Rightarrow>
          (case handleFailedItem q1 it err (now + elapsed) of
             (exn, q2) \<Rightarrow> (exn, q2, now + elapsed, h')))"

text \<open>What is left to do: every queued item can come back at most
  \<open>maxRetries - retries\<close> more times.\<close>

definition budget :: "'h price_queue \<Rightarrow> nat" where
  "budget q = sum_list (map (\<lambda>it. nat (maxRetries q - retries it) + 1) (queue q))"

lemma budget_handleFailedItem:
  "budget (snd (handleFailedItem q it err now)) \<le> budget q + nat (maxRetries q - retries it)"
  by (auto simp: handleFailedItem_def budget_def incr_failed_def incr_retried_def Let_def
      split: option.splits)

lemma budget_drain_item:
  assumes "queue q = it # rest"
  shows "budget (fst (snd (drain_item q it now h))) < budget q"
proof -
  let ?q1 = "q\<lparr>queue := tl (queue q)\<rparr>"
  have b1: "budget q = budget ?q1 + nat (maxRetries q - retries it) + 1"
    using assms by (simp add: budget_def)
  have m1: "maxRetries ?q1 = maxRetries q" by simp
  show ?thesis
  proof (cases "processItem ?q1 it h")
    case (fields r elapsed h')
    show ?thesis
    proof (cases r)
      case None
      then show ?thesis using fields b1
        by (simp add: drain_item_def Let_def incr_processed_def budget_def)
    next
      case (Some err)
      have "budget (snd (handleFailedItem ?q1 it err (now + elapsed)))
              \<le> budget ?q1 + nat (maxRetries ?q1 - retries it)"
        by (rule budget_handleFailedItem)
      then show ?thesis using fields Some b1 m1
        by (auto simp: drain_item_def Let_def split: prod.splits)
    qed
  qed
qed

function drain ::
  "'h price_queue \<Rightarrow> int \<Rightarrow> int \<Rightarrow> 'h \<Rightarrow> queue_error option \<times> 'h price_queue \<times> 'h" where
  "drain q processingStartTime now h =
     (case queue q of
        [] \<Rightarrow> (None, q, h)
      | it # rest \<Rightarrow>
          if now - processingStartTime > processingTimeout q then (None, incr_timeouts q, h)
          else
            (case drain_item q it now h of
               (Some exn, q', now', h') \<Rightarrow> (Some exn, q', h')
             | (None, q', now', h') \<Rightarrow> drain q' processingStartTime now' h'))"
  by pat_completeness auto
termination
proof (relation "measure (\<lambda>(q, t0, t, h). budget q)")
  show "wf (measure (\<lambda>(q, t0, t, h). budget q))" by simp
next
  fix q :: "'h price_queue" and processingStartTime now :: int and h :: 'h
    and it rest x q' y now' h' exn
  assume "queue q = it # rest" and "(exn, y) = drain_item q it now h"
    and "(q', x) = y"
  then have "q' = fst (snd (drain_item q it now h))"
    by (metis fst_conv snd_conv)
  with \<open>queue q = it # rest\<close>
  show "((q', processingStartTime, now', h'), (q, processingStartTime, now, h))
          \<in> measure (\<lambda>(q, t0, t, h). budget q)"
    using budget_drain_item [of q it rest now h] by simp
qed

text \<open>
  \<open>processQueue\<close> at clock reading \<open>now\<close>. The \<open>finally\<close> block runs on the normal exit,
  on the \<open>break\<close> and on an exception alike; the early \<open>return\<close> is before the \<open>try\<close>.
\<close>

definition processQueue ::
  "'h price_queue \<Rightarrow> int \<Rightarrow> 'h \<Rightarrow> queue_error option \<times> 'h price_queue \<times> 'h" where
  "processQueue q now h =
     (if processing q then (None, q, h)
      else
        (case drain (q\<lparr>processing := True\<rparr>) now now h of
           (exn, q', h') \<Rightarrow> (exn, q'\<lparr>processing := False\<rparr>, h')))"

text \<open>\<open>add\<close> at clock reading \<open>now\<close>, with \<open>rnd\<close> the random suffix of the new id.\<close>

definition add ::
  "'h price_queue \<Rightarrow> jsval \<Rightarrow> int \<Rightarrow> string \<Rightarrow> 'h \<Rightarrow> queue_error option \<times> 'h price_queue \<times> 'h" where
  "add q d now rnd h =
     (if int (length (queue q)) \<ge> maxQueueSize q then (Some (QueueFull (maxQueueSize q)), q, h)
      else if \<not> validateData d then (Some InvalidQueueData, q, h)
      else
        (let it = \<lparr> item_id = generateItemId now rnd, item_data = d, addedAt = now,
                     retries = 0, lastError = None \<rparr>;
             q1 = q\<lparr>queue := queue q @ [it]\<rparr>
         in if \<not> processing q1 then processQueue q1 now h else (None, q1, h)))"

section \<open>The local store (MemoryStorage)\<close>

text \<open>
  The class body of \<open>MemoryStorage\<close> declares \<open>saveTokenPrice\<close>, \<open>getTokenPrice\<close>,
  \<open>getPriceHistory\<close>, \<open>clearHistory\<close>, \<open>updateConfig\<close> and \<open>getConfig\<close> twice. In
  JavaScript the later declaration of a method replaces the earlier one, so the methods
  in effect, and modelled here, are the later ones. Their writes to disk catch their own
  errors and change nothing in memory; they are left out, as is the loading from disk
  when the process starts. A \<open>Map\<close> is an association
  list, in insertion order. Timestamps are the milliseconds of \<open>Date\<close>: the ISO text the
  source stores is read back to the same instant.
\<close>

record price_entry =
  p_token :: jsval
  p_price :: jsval
  p_updated_at :: int

record history_entry =
  h_price :: jsval
  h_updated_at :: int

record memory_storage =
  prices :: "(jsval \<times> price_entry) list"
  config :: "(jsval \<times> jsval) list"
  history :: "(jsval \<times> history_entry list) list"

definition memory_constructor :: memory_storage where
  "memory_constructor =
     \<lparr> prices = [],
       config = [(JStr ''sort_criteria'', JStr ''mc''), (JStr ''update_interval'', JStr ''30'')],
       history = [] \<rparr>"

datatype store_error = StoreTypeError

definition nullish :: "jsval \<Rightarrow> bool" where
  "nullish v \<longleftrightarrow> v = JUndefined \<or> v = JNull"

text \<open>
  \<open>saveTokenPrice\<close> at clock reading \<open>now\<close>. Reading \<open>token.poolAddress\<close> of a missing
  token throws before anything is written; reading \<open>price.price\<close> of a missing price
  throws after the price entry is set and the history series exists. The series is
  extended in place: \<open>unshift\<close> puts the new entry first, and a series longer than 24 is
  cut to its first 24 entries by the assignment to \<open>length\<close>.
\<close>

definition memory_saveTokenPrice ::
  "jsval \<Rightarrow> jsval \<Rightarrow> int \<Rightarrow> memory_storage \<Rightarrow> (store_error + jsval) \<times> memory_storage" where
  "memory_saveTokenPrice token price now m =
     (if nullish token then (Inl StoreTypeError, m)
      else
        (let key = getp token ''poolAddress'';
             m1 = m\<lparr>prices := AList.update key
                    \<lparr> p_token = token, p_price = price, p_updated_at = now \<rparr> (prices m)\<rparr>;
             m2 = (if map_of (history m1) key = None
                   then m1\<lparr>history := AList.update key [] (history m1)\<rparr> else m1);
             series = (case map_of (history m2) key of None \<Rightarrow> [] | Some h \<Rightarrow> h)
         in if nullish price then (Inl StoreTypeError, m2)
            else
              (let series1 = \<lparr> h_price = getp price ''price'', h_updated_at = now \<rparr> # series;
                   series2 = (if length series1 > 24 then take 24 series1 else series1)
               in (Inr (JBool True), m2\<lparr>history := AList.update key series2 (history m2)\<rparr>))))"

text \<open>\<open>getTokenPrice\<close> at clock reading \<open>now\<close>; \<open>None\<close> is the \<open>null\<close> it returns.\<close>

definition memory_getTokenPrice :: "jsval \<Rightarrow> int \<Rightarrow> memory_storage \<Rightarrow> jsval option" where
  "memory_getTokenPrice poolAddress now m =
     (case map_of (prices m) poolAddress of
        None \<Rightarrow> None
      | Some d \<Rightarrow>
          (let thirtySecondsAgo = now - 30 * 1000
           in if p_updated_at d < thirtySecondsAgo then None else Some (p_price d)))"

definition memory_getPriceHistory :: "jsval \<Rightarrow> memory_storage \<Rightarrow> history_entry list" where
  "memory_getPriceHistory poolAddress m =
     (case map_of (history m) poolAddress of None \<Rightarrow> [] | Some h \<Rightarrow> h)"

definition memory_clearHistory :: "jsval \<Rightarrow> memory_storage \<Rightarrow> bool \<times> memory_storage" where
  "memory_clearHistory poolAddress m =
     (True, m\<lparr>history := AList.delete poolAddress (history m)\<rparr>)"

definition memory_updateConfig :: "jsval \<Rightarrow> jsval \<Rightarrow> memory_storage \<Rightarrow> bool \<times> memory_storage" where
  "memory_updateConfig key val m = (True, m\<lparr>config := AList.update key val (config m)\<rparr>)"

definition memory_getConfig :: "jsval \<Rightarrow> memory_storage \<Rightarrow> (jsval \<times> jsval) option" where
  "memory_getConfig key m =
     (case map_of (config m) key of
        None \<Rightarrow> None
      | Some v \<Rightarrow> (if truthy v then Some (key, v) else None))"

section \<open>The remote store client (SupabaseService)\<close>

text \<open>
  The database behind the client is not part of the repository. Its model follows the
  table definitions of the repository's setup notes: \<open>token_prices\<close> has a serial primary
  key, so an \<open>upsert\<close> that names no id adds a row; \<open>bot_config\<close> is keyed by \<open>key\<close>. A
  request either reaches the database or comes back with an error, which the flag
  \<open>reachable\<close> decides. A request travels as JSON, where \<open>undefined\<close> and \<open>NaN\<close> arrive
  as \<open>null\<close>; a \<open>null\<close> in a column declared \<open>NOT NULL\<close> is refused, and a column gives
  back the value that arrived. The types of the columns are not modelled.
\<close>

fun to_column :: "jsval \<Rightarrow> jsval" where
  "to_column JUndefined = JNull"
| "to_column JNaN = JNull"
| "to_column v = v"

record price_row =
  token_address :: jsval
  pool_address :: jsval
  ticker :: jsval
  name :: jsval
  price :: jsval
  market_cap :: jsval
  liquidity :: jsval
  volume_24h :: jsval
  dex_id :: jsval
  updated_at :: int

record config_row =
  c_value :: jsval
  c_updated_at :: int

record supabase_service =
  initialized :: bool
  available :: bool
  reachable :: bool
  token_prices :: "price_row list"
  bot_config :: "(jsval \<times> config_row) list"

definition isAvailable :: "supabase_service \<Rightarrow> bool" where
  "isAvailable s = available s"

text \<open>\<open>initializeTables\<close>: the probe of \<open>bot_config\<close> fails exactly when the database is out
  of reach, and then the insert of the default rows fails with it. Errors come back as
  values, so the flag is set on both paths.\<close>

definition initializeTables :: "supabase_service \<Rightarrow> supabase_service" where
  "initializeTables s = (if reachable s then s\<lparr>initialized := True\<rparr> else s\<lparr>initialized := True\<rparr>)"

definition ensureInitialized :: "supabase_service \<Rightarrow> bool \<times> supabase_service" where
  "ensureInitialized s =
     (if \<not> available s then (False, s)
      else
        (let s1 = (if \<not> initialized s then initializeTables s else s)
         in (initialized s1, s1)))"

text \<open>\<open>saveTokenPrice\<close> at clock reading \<open>now\<close>. Every failure is caught and gives \<open>null\<close>;
  a successful \<open>upsert\<close> that selects nothing has no rows to return either.\<close>

definition supabase_saveTokenPrice ::
  "jsval \<Rightarrow> jsval \<Rightarrow> int \<Rightarrow> supabase_service \<Rightarrow> jsval \<times> supabase_service" where
  "supabase_saveTokenPrice token pr now s =
     (if nullish token \<or> nullish pr then (JNull, s)
      else
        (let row = \<lparr> token_address = to_column (getp token ''address''),
                     pool_address = to_column (getp token ''poolAddress''),
                     ticker = to_column (getp token ''ticker''),
                     name = to_column (getp token ''name''),
                     price = to_column (getp pr ''price''),
                     market_cap = to_column (getp pr ''marketCap''),
                     liquidity = to_column (getp pr ''liquidity''),
                     volume_24h = to_column (getp pr ''volume24h''),
                     dex_id = to_column (getp pr ''dexId''),
                     updated_at = now \<rparr>
         in if \<not> reachable s then (JNull, s)
            else if token_address row = JNull \<or> pool_address row = JNull \<or>
                    ticker row = JNull \<or> price row = JNull then (JNull, s)
            else (JNull, s\<lparr>token_prices := token_prices s @ [row]\<rparr>)))"

text \<open>The row that \<open>order('updated_at', descending).limit(1)\<close> selects among the rows of a
  pool; among rows of equal time the model takes the one inserted last.\<close>

fun newest :: "price_row list \<Rightarrow> price_row option" where
  "newest [] = None"
| "newest (r # rs) =
     (case newest rs of
        None \<Rightarrow> Some r
      | Some b \<Rightarrow> (if updated_at b < updated_at r then Some r else Some b))"

definition supabase_getTokenPrice :: "jsval \<Rightarrow> int \<Rightarrow> supabase_service \<Rightarrow> jsval option" where
  "supabase_getTokenPrice poolAddress now s =
     (if \<not> reachable s then None
      else
        (case newest (filter (\<lambda>r. pool_address r = poolAddress) (token_prices s)) of
           None \<Rightarrow> None
         | Some d \<Rightarrow>
             (let thirtySecondsAgo = now - 30 * 1000
              in if updated_at d < thirtySecondsAgo then None
                 else Some (JObject
                   [(''price'', price d), (''marketCap'', market_cap d),
                    (''liquidity'', liquidity d), (''volume24h'', volume_24h d),
                    (''dexId'', dex_id d)]))))"

text \<open>\<open>getPriceHistory\<close>, with \<open>limit\<close> absent giving the default of 24: the newest rows of
  the pool first, as price and time.\<close>

definition supabase_getPriceHistory ::
  "jsval \<Rightarrow> nat option \<Rightarrow> supabase_service \<Rightarrow> history_entry list" where
  "supabase_getPriceHistory poolAddress limit s =
     (if \<not> reachable s then []
      else
        map (\<lambda>r. \<lparr> h_price = price r, h_updated_at = updated_at r \<rparr>)
          (take (case limit of None \<Rightarrow> 24 | Some n \<Rightarrow> n)
            (rev (sort_key updated_at
              (filter (\<lambda>r. pool_address r = poolAddress) (token_prices s))))))"

definition supabase_clearHistory :: "jsval \<Rightarrow> supabase_service \<Rightarrow> bool \<times> supabase_service" where
  "supabase_clearHistory poolAddress s =
     (if \<not> reachable s then (False, s)
      else (True, s\<lparr>token_prices := filter (\<lambda>r. pool_address r \<noteq> poolAddress) (token_prices s)\<rparr>))"

text \<open>\<open>value.toString()\<close>, which throws on \<open>null\<close> and \<open>undefined\<close>. The text of a string is
  the string; for the other kinds the model keeps the value in place of its text.\<close>

definition toString :: "jsval \<Rightarrow> jsval option" where
  "toString v = (if nullish v then None else Some v)"

text \<open>\<open>updateConfig\<close> at clock reading \<open>now\<close>. The result of \<open>ensureInitialized\<close> is
  ignored by the source, its effect on the flag is not.\<close>

definition supabase_updateConfig ::
  "jsval \<Rightarrow> jsval \<Rightarrow> int \<Rightarrow> supabase_service \<Rightarrow> bool \<times> supabase_service" where
  "supabase_updateConfig key val now s =
     (let s1 = snd (ensureInitialized s) in
      case toString val of
        None \<Rightarrow> (False, s1)
      | Some text \<Rightarrow>
          if \<not> reachable s1 then (False, s1)
          else if to_column key = JNull \<or> to_column text = JNull then (False, s1)
          else (True, s1\<lparr>bot_config := AList.update (to_column key)
                  \<lparr> c_value = to_column text, c_updated_at = now \<rparr> (bot_config s1)\<rparr>))"

section \<open>The storage facade (services/storage.js)\<close>

subsection \<open>State\<close>

text \<open>
  The two stores are module-level objects that the facade and its buffered operations
  share; with the clock they form the surroundings \<open>stores\<close> of the facade. Within one
  call that does not wait, every reading of the clock gives the same instant. The set
  of secondary admins, \<open>getConfig\<close>, \<open>getStats\<close> and \<open>testConnection\<close> play no part in
  the properties below and are left out.
\<close>

record stores =
  clock :: int
  supabase :: supabase_service
  memoryStorage :: memory_storage

text \<open>The object held in \<open>this.storage\<close>.\<close>

datatype backend = Supabase | Memory

text \<open>
  The facade, for buffered operations of type \<open>'op\<close>. The lock map only ever holds
  \<open>true\<close>, so it is the set of its keys. \<open>queueSync\<close> accepts any function; the model is
  given the operations as values together with \<open>exec\<close>, which runs one of them on the
  stores and tells whether it threw.
\<close>

record 'op storage_service =
  useSupabase :: bool
  storage :: backend
  syncLock :: "string set"
  syncQueue :: "string \<rightharpoonup> 'op list"
  lastSync :: "string \<rightharpoonup> int"
  syncInterval :: int

type_synonym 'op exec = "'op \<Rightarrow> stores \<Rightarrow> store_error option \<times> stores"

text \<open>The state once the constructor and the admin load it starts have finished.\<close>

definition storage_constructor :: "'op storage_service" where
  "storage_constructor =
     \<lparr> useSupabase = True, storage = Supabase, syncLock = {}, syncQueue = Map.empty,
       lastSync = Map.empty, syncInterval = 5000 \<rparr>"

subsection \<open>Locks\<close>

definition acquireLock :: "string \<Rightarrow> 'op storage_service \<Rightarrow> bool \<times> 'op storage_service" where
  "acquireLock key svc =
     (if key \<in> syncLock svc then (False, svc)
      else (True, svc\<lparr>syncLock := insert key (syncLock svc)\<rparr>))"

definition releaseLock :: "string \<Rightarrow> 'op storage_service \<Rightarrow> 'op storage_service" where
  "releaseLock key svc = svc\<lparr>syncLock := syncLock svc - {key}\<rparr>"

subsection \<open>Validation\<close>

text \<open>\<open>validateData\<close> of the facade, as the truth value its callers test.\<close>

definition storage_validateData :: "jsval \<Rightarrow> string \<Rightarrow> bool" where
  "storage_validateData data type =
     (if \<not> truthy data then False
      else if type = ''price'' then
        truthy (getp data ''price'') \<and> typeof (getp data ''price'') = ''number'' \<and>
        truthy (getp data ''marketCap'') \<and> typeof (getp data ''marketCap'') = ''number'' \<and>
        truthy (getp data ''liquidity'') \<and> typeof (getp data ''liquidity'') = ''number''
      else if type = ''token'' then
        truthy (getp data ''address'') \<and> typeof (getp data ''address'') = ''string'' \<and>
        truthy (getp data ''poolAddress'') \<and> typeof (getp data ''poolAddress'') = ''string'' \<and>
        truthy (getp data ''ticker'') \<and> typeof (getp data ''ticker'') = ''string''
      else if type = ''config'' then
        truthy (getp data ''key'') \<and> typeof (getp data ''key'') = ''string'' \<and>
        getp data ''value'' \<noteq> JUndefined
      else False)"

subsection \<open>The synchronization queue\<close>

text \<open>The loop over the snapshot: an operation that throws is logged and the loop goes
  on with the next one, on the stores as the failed operation left them.\<close>

fun run_operations :: "'op exec \<Rightarrow> 'op list \<Rightarrow> stores \<Rightarrow> stores" where
  "run_operations exec [] st = st"
| "run_operations exec (operation # operations) st =
     (case exec operation st of
        (None, st') \<Rightarrow> run_operations exec operations st'
      | (Some error, st') \<Rightarrow> run_operations exec operations st')"

text \<open>The first statements of the \<open>try\<close> block: take the bucket as it is, put an empty
  one in its place and note the time.\<close>

definition take_snapshot ::
  "string \<Rightarrow> int \<Rightarrow> 'op storage_service \<Rightarrow> 'op list \<times> 'op storage_service" where
  "take_snapshot type now svc =
     (let operations = (case syncQueue svc type of None \<Rightarrow> [] | Some ops \<Rightarrow> ops)
      in (operations, svc\<lparr>syncQueue := (syncQueue svc)(type \<mapsto> []),
                           lastSync := (lastSync svc)(type \<mapsto> now)\<rparr>))"

text \<open>\<open>processSyncQueue\<close> run to its end without anything else happening in between.\<close>

definition processSyncQueue ::
  "'op exec \<Rightarrow> string \<Rightarrow> 'op storage_service \<times> stores \<Rightarrow> 'op storage_service \<times> stores" where
  "processSyncQueue exec type w =
     (case w of (svc, st) \<Rightarrow>
        (case acquireLock type svc of
           (False, svc') \<Rightarrow> (svc', st)
         | (True, svc1) \<Rightarrow>
             (case take_snapshot type (clock st) svc1 of
                (operations, svc2) \<Rightarrow>
                  (releaseLock type svc2, run_operations exec operations st))))"

definition queueSync ::
  "'op exec \<Rightarrow> string \<Rightarrow> 'op \<Rightarrow> 'op storage_service \<times> stores \<Rightarrow> 'op storage_service \<times> stores" where
  "queueSync exec type operation w =
     (case w of (svc, st) \<Rightarrow>
        (let bucket = (case syncQueue svc type of None \<Rightarrow> [] | Some ops \<Rightarrow> ops);
             svc1 = svc\<lparr>syncQueue := (syncQueue svc)(type \<mapsto> bucket @ [operation])\<rparr>;
             lastSyncTime = (case lastSync svc1 type of None \<Rightarrow> 0 | Some t \<Rightarrow> t)
         in if clock st - lastSyncTime > syncInterval svc1
            then processSyncQueue exec type (svc1, st)
            else (svc1, st)))"

subsection \<open>The buffered operations of the facade\<close>

text \<open>The two closures the facade hands to \<open>queueSync\<close>: the save of a price in the local
  store, and the update of a configuration entry in the remote store.\<close>

datatype sync_op =
    MemorySaveTokenPrice jsval jsval
  | SupabaseUpdateConfig jsval jsval

fun exec_sync_op :: "sync_op exec" where
  "exec_sync_op (MemorySaveTokenPrice token pr) st =
     (case memory_saveTokenPrice token pr (clock st) (memoryStorage st) of
        (Inl error, m) \<Rightarrow> (Some error, st\<lparr>memoryStorage := m\<rparr>)
      | (Inr r, m) \<Rightarrow> (None, st\<lparr>memoryStorage := m\<rparr>))"
| "exec_sync_op (SupabaseUpdateConfig key val) st =
     (case supabase_updateConfig key val (clock st) (supabase st) of
        (r, s) \<Rightarrow> (None, st\<lparr>supabase := s\<rparr>))"

subsection \<open>Writes\<close>

datatype storage_error = InvalidPriceData | InvalidConfigData | Uncaught store_error

text \<open>\<open>this.storage.saveTokenPrice\<close>, on whichever object \<open>this.storage\<close> holds.\<close>

definition storage_save ::
  "backend \<Rightarrow> jsval \<Rightarrow> jsval \<Rightarrow> stores \<Rightarrow> (store_error + jsval) \<times> stores" where
  "storage_save b token pr st =
     (case b of
        Supabase \<Rightarrow>
          (case supabase_saveTokenPrice token pr (clock st) (supabase st) of
             (r, s) \<Rightarrow> (Inr r, st\<lparr>supabase := s\<rparr>))
      | Memory \<Rightarrow>
          (case memory_saveTokenPrice token pr (clock st) (memoryStorage st) of
             (r, m) \<Rightarrow> (r, st\<lparr>memoryStorage := m\<rparr>)))"

definition saveTokenPrice ::
  "jsval \<Rightarrow> jsval \<Rightarrow> sync_op storage_service \<times> stores \<Rightarrow>
     (storage_error + jsval) \<times> sync_op storage_service \<times> stores" where
  "saveTokenPrice token pr w =
     (case w of (svc, st) \<Rightarrow>
        if \<not> storage_validateData token ''token'' \<or> \<not> storage_validateData pr ''price''
        then (Inl InvalidPriceData, svc, st)
        else
          (case storage_save (storage svc) token pr st of
             (Inl e, st1) \<Rightarrow> (Inl (Uncaught e), svc, st1)
           | (Inr result, st1) \<Rightarrow>
               if useSupabase svc
               then (Inr result, queueSync exec_sync_op ''price'' (MemorySaveTokenPrice token pr) (svc, st1))
               else (Inr result, svc, st1)))"

definition updateConfig ::
  "jsval \<Rightarrow> jsval \<Rightarrow> sync_op storage_service \<times> stores \<Rightarrow>
     (storage_error + bool) \<times> sync_op storage_service \<times> stores" where
  "updateConfig key val w =
     (case w of (svc, st) \<Rightarrow>
        (let configData = JObject [(''key'', key), (''value'', val)] in
         if \<not> storage_validateData configData ''config'' then (Inl InvalidConfigData, svc, st)
         else
           (case memory_updateConfig key val (memoryStorage st) of
              (r, m) \<Rightarrow>
                (let st1 = st\<lparr>memoryStorage := m\<rparr> in
                 if useSupabase svc
                 then (Inr True, queueSync exec_sync_op ''config'' (SupabaseUpdateConfig key val) (svc, st1))
                 else (Inr True, svc, st1)))))"

subsection \<open>Mode\<close>

definition isSupabaseAvailable :: "stores \<Rightarrow> bool" where
  "isSupabaseAvailable st = isAvailable (supabase st)"

definition setStorageMode :: "bool \<Rightarrow> 'op storage_service \<times> stores \<Rightarrow> 'op storage_service \<times> stores" where
  "setStorageMode mode w =
     (case w of (svc, st) \<Rightarrow>
        if mode \<and> \<not> isSupabaseAvailable st then (svc, st)
        else (svc\<lparr>useSupabase := mode\<rparr>, st))"

definition getStorageMode :: "'op storage_service \<Rightarrow> string" where
  "getStorageMode svc = (if useSupabase svc then ''supabase'' else ''memory'')"

subsection \<open>Delegated reads and clearing\<close>

definition getTokenPrice :: "jsval \<Rightarrow> 'op storage_service \<times> stores \<Rightarrow> jsval option" where
  "getTokenPrice poolAddress w =
     (case w of (svc, st) \<Rightarrow>
        (case storage svc of
           Supabase \<Rightarrow> supabase_getTokenPrice poolAddress (clock st) (supabase st)
         | Memory \<Rightarrow> memory_getTokenPrice poolAddress (clock st) (memoryStorage st)))"

definition getPriceHistory ::
  "jsval \<Rightarrow> nat option \<Rightarrow> 'op storage_service \<times> stores \<Rightarrow> history_entry list" where
  "getPriceHistory poolAddress limit w =
     (case w of (svc, st) \<Rightarrow>
        (case storage svc of
           Supabase \<Rightarrow> supabase_getPriceHistory poolAddress limit (supabase st)
         | Memory \<Rightarrow> memory_getPriceHistory poolAddress (memoryStorage st)))"

definition clearHistory ::
  "jsval \<Rightarrow> 'op storage_service \<times> stores \<Rightarrow> bool \<times> 'op storage_service \<times> stores" where
  "clearHistory poolAddress w =
     (case w of (svc, st) \<Rightarrow>
        (case storage svc of
           Supabase \<Rightarrow>
             (case supabase_clearHistory poolAddress (supabase st) of
                (r, s) \<Rightarrow> (r, svc, st\<lparr>supabase := s\<rparr>))
         | Memory \<Rightarrow>
             (case memory_clearHistory poolAddress (memoryStorage st) of
                (r, m) \<Rightarrow> (r, svc, st\<lparr>memoryStorage := m\<rparr>))))"

section \<open>Notions used in the statements\<close>

subsection \<open>The update queue\<close>

text \<open>Two states of a queue that have the same settings, the same handlers and the same
  flag.\<close>

definition same_config :: "'h price_queue \<Rightarrow> 'h price_queue \<Rightarrow> bool" where
  "same_config q q' \<longleftrightarrow>
     maxQueueSize q' = maxQueueSize q \<and> processingTimeout q' = processingTimeout q \<and>
     handlerTimeout q' = handlerTimeout q \<and> maxRetries q' = maxRetries q \<and>
     handlers q' = handlers q \<and> processing q' = processing q"

text \<open>No queued item has been retried more often than \<open>maxRetries\<close> allows.\<close>

definition within_budget :: "'h price_queue \<Rightarrow> bool" where
  "within_budget q \<longleftrightarrow> (\<forall>x \<in> set (queue q). retries x \<le> maxRetries q)"

text \<open>Processing the item fails, whatever the handlers' world is.\<close>

definition fails_always :: "'h price_queue \<Rightarrow> item \<Rightarrow> bool" where
  "fails_always q it \<longleftrightarrow> (\<forall>h. fst (processItem q it h) \<noteq> None)"

text \<open>Processing the item fails and the failure has a message that can be read, whatever
  the handlers' world is.\<close>

definition fails_readably :: "'h price_queue \<Rightarrow> item \<Rightarrow> bool" where
  "fails_readably q it \<longleftrightarrow>
     (\<forall>h. \<exists>err. fst (processItem q it h) = Some err \<and> message err \<noteq> None)"

text \<open>The promise a handler returned is fulfilled, and no later than the timer it is raced
  against fires. A promise that rejects, one that never settles, and a throw are not.\<close>

fun settles_in_time :: "int \<Rightarrow> outcome \<Rightarrow> bool" where
  "settles_in_time T (Fulfilled d) = (int d \<le> max 0 T)"
| "settles_in_time T (Rejected d) = False"
| "settles_in_time T Pending = False"
| "settles_in_time T (Throws v) = False"

text \<open>Called for the item, no handler of the queue throws before it has returned its
  promise, and one of them returns a promise that rejects or is not fulfilled in time,
  whatever the handlers' world is.\<close>

definition rejects_or_times_out :: "'h price_queue \<Rightarrow> item \<Rightarrow> bool" where
  "rejects_or_times_out q it \<longleftrightarrow>
     (\<forall>f \<in> set (handlers q). \<forall>h v. fst (f (item_data it) h) \<noteq> Throws v) \<and>
     (\<exists>f \<in> set (handlers q). \<forall>h. \<not> settles_in_time (handlerTimeout q) (fst (f (item_data it) h)))"

text \<open>A failure-log entry that is the given item with the given retry count.\<close>

definition logged_as :: "failed_item \<Rightarrow> item \<Rightarrow> int \<Rightarrow> bool" where
  "logged_as f it n \<longleftrightarrow>
     item_id f = item_id it \<and> item_data f = item_data it \<and> addedAt f = addedAt it \<and>
     retries f = n"

subsection \<open>The stores\<close>

text \<open>The entry that \<open>saveTokenPrice\<close> puts in front of a series.\<close>

definition new_entry :: "jsval \<Rightarrow> int \<Rightarrow> history_entry" where
  "new_entry pr now = \<lparr> h_price = getp pr ''price'', h_updated_at = now \<rparr>"

text \<open>A sequence of calls of \<open>saveTokenPrice\<close>, each with its token, its price and the
  clock reading at the call.\<close>

fun save_all :: "(jsval \<times> jsval \<times> int) list \<Rightarrow> memory_storage \<Rightarrow> memory_storage" where
  "save_all [] m = m"
| "save_all ((token, pr, now) # calls) m =
     save_all calls (snd (memory_saveTokenPrice token pr now m))"

text \<open>The entries that the successful calls of a sequence add to the series of a pool, in
  the order of the calls.\<close>

definition entries_for :: "jsval \<Rightarrow> (jsval \<times> jsval \<times> int) list \<Rightarrow> history_entry list" where
  "entries_for k calls =
     map (\<lambda>(token, pr, now). new_entry pr now)
       (filter (\<lambda>(token, pr, now). getp token ''poolAddress'' = k \<and>
                  \<not> nullish token \<and> \<not> nullish pr) calls)"

text \<open>What the remote client returns for the row that was made from a price payload.\<close>

definition price_columns :: "jsval \<Rightarrow> jsval" where
  "price_columns pr =
     JObject [(''price'', to_column (getp pr ''price'')),
              (''marketCap'', to_column (getp pr ''marketCap'')),
              (''liquidity'', to_column (getp pr ''liquidity'')),
              (''volume24h'', to_column (getp pr ''volume24h'')),
              (''dexId'', to_column (getp pr ''dexId''))]"

subsection \<open>Sample inputs\<close>

text \<open>A token and a price as the caller of the facade builds them.\<close>

definition sample_token :: "string \<Rightarrow> jsval" where
  "sample_token pool =
     JObject [(''address'', JStr ''0xA''), (''poolAddress'', JStr pool),
              (''ticker'', JStr ''TKN''), (''name'', JStr ''Token'')]"

definition sample_price :: "real \<Rightarrow> jsval" where
  "sample_price x =
     JObject [(''price'', JNum x), (''marketCap'', JNum 500), (''liquidity'', JNum 30),
              (''volume24h'', JNum 7), (''dexId'', JStr ''uni'')]"

text \<open>Empty stores at a given time, the database in reach.\<close>

definition sample_stores :: "int \<Rightarrow> stores" where
  "sample_stores now =
     \<lparr> clock = now,
       supabase = \<lparr> initialized = True, available = True, reachable = True,
                    token_prices = [], bot_config = [] \<rparr>,
       memoryStorage = memory_constructor \<rparr>"

text \<open>
  A price is saved in remote mode and reaches both stores. Ten seconds later the
  database is out of reach and the operator switches the facade to local mode.
\<close>

definition local_mode_after_outage :: "sync_op storage_service \<times> stores" where
  "local_mode_after_outage =
     (case snd (saveTokenPrice (sample_token ''P1'') (sample_price 2)
             (storage_constructor, sample_stores 10000)) of
        (svc, st) \<Rightarrow>
          setStorageMode False
            (svc, st\<lparr>clock := 20000, supabase := (supabase st)\<lparr>reachable := False\<rparr>\<rparr>))"

text \<open>
  A flush of the price bucket is in progress: it has taken the lock and, as its
  snapshot, the one operation that was waiting. While it runs, two prices are saved
  through the facade in remote mode. Then the flush runs its snapshot and releases the
  lock.
\<close>

definition flush_in_progress :: "sync_op storage_service \<times> sync_op list" where
  "flush_in_progress =
     (case acquireLock ''price''
             (storage_constructor\<lparr>syncQueue := [''price'' \<mapsto>
                  [MemorySaveTokenPrice (sample_token ''P0'') (sample_price 1)]],
                lastSync := [''price'' \<mapsto> 4000]\<rparr>) of
        (acquired, svc1) \<Rightarrow>
          (case take_snapshot ''price'' 10000 svc1 of (operations, svc2) \<Rightarrow> (svc2, operations)))"

definition queued_during_flush :: "sync_op storage_service \<times> stores" where
  "queued_during_flush =
     (case flush_in_progress of
        (svc, operations) \<Rightarrow>
          (case snd (saveTokenPrice (sample_token ''P2'') (sample_price 3)
                  (snd (saveTokenPrice (sample_token ''P1'') (sample_price 2)
                     (svc, sample_stores 10000)))) of
             (svc', st') \<Rightarrow>
               (releaseLock ''price'' svc', run_operations exec_sync_op operations st')))"

section \<open>Reasoning about the drain loop\<close>

text \<open>The defining equation of \<open>drain\<close> is used through the four lemmas below, one for
  each way out of a turn of the loop, and through an induction rule that follows it.\<close>

declare drain.simps [simp del]

lemma drain_empty: "queue q = [] \<Longrightarrow> drain q t0 t h = (None, q, h)"
  by (subst drain.simps) simp

lemma drain_timeout:
  "queue q = it # rest \<Longrightarrow> t - t0 > processingTimeout q \<Longrightarrow>
   drain q t0 t h = (None, incr_timeouts q, h)"
  by (subst drain.simps) simp

lemma drain_exn:
  "queue q = it # rest \<Longrightarrow> \<not> t - t0 > processingTimeout q \<Longrightarrow>
   drain_item q it t h = (Some e, q', t', h') \<Longrightarrow>
   drain q t0 t h = (Some e, q', h')"
  by (subst drain.simps) simp

lemma drain_next:
  "queue q = it # rest \<Longrightarrow> \<not> t - t0 > processingTimeout q \<Longrightarrow>
   drain_item q it t h = (None, q', t', h') \<Longrightarrow>
   drain q t0 t h = drain q' t0 t' h'"
  by (subst drain.simps) simp

lemma drain_induct [case_names step]:
  assumes "\<And>q t0 t h.
     (\<And>it rest q' t' h'. queue q = it # rest \<Longrightarrow> \<not> t - t0 > processingTimeout q \<Longrightarrow>
        drain_item q it t h = (None, q', t', h') \<Longrightarrow> P q' t0 t' h') \<Longrightarrow> P q t0 t h"
  shows "P q t0 t h"
proof (induction q t0 t h rule: drain.induct)
  case (1 q t0 t h)
  show ?case
  proof (rule assms)
    fix it rest q' t' h'
    assume a: "queue q = it # rest" "\<not> t - t0 > processingTimeout q"
      "drain_item q it t h = (None, q', t', h')"
    show "P q' t0 t' h'"
      by (rule "1.IH" [OF a(1) a(2) a(3) [symmetric] refl refl refl])
  qed
qed

text \<open>The four ways one turn of the loop can end.\<close>

lemma drain_item_cases:
  assumes "queue q = it # rest"
  obtains
    (processed) e h' where "processItem (q\<lparr>queue := rest\<rparr>) it h = (None, e, h')"
      "drain_item q it t h = (None, incr_processed (q\<lparr>queue := rest\<rparr>), t + e, h')"
  | (thrown) err e h' where "processItem (q\<lparr>queue := rest\<rparr>) it h = (Some err, e, h')"
      "message err = None"
      "drain_item q it t h = (Some TypeError, incr_failed (q\<lparr>queue := rest\<rparr>), t + e, h')"
  | (retry) err m e h' where "processItem (q\<lparr>queue := rest\<rparr>) it h = (Some err, e, h')"
      "message err = Some m" "retries it < maxRetries q"
      "drain_item q it t h =
         (None, (incr_retried (incr_failed (q\<lparr>queue := rest\<rparr>)))\<lparr>queue :=
             rest @ [it\<lparr>retries := retries it + 1, lastError := Some m\<rparr>]\<rparr>, t + e, h')"
  | (terminal) err m e h' where "processItem (q\<lparr>queue := rest\<rparr>) it h = (Some err, e, h')"
      "message err = Some m" "\<not> retries it < maxRetries q"
      "drain_item q it t h =
         (None, (incr_failed (q\<lparr>queue := rest\<rparr>))\<lparr>failedItems :=
             (failedItems q)(item_id it \<mapsto> item.extend it \<lparr>finalError = m, failedAt = t + e\<rparr>)\<rparr>,
          t + e, h')"
proof (cases "processItem (q\<lparr>queue := rest\<rparr>) it h")
  case (fields r e h')
  show ?thesis
  proof (cases r)
    case None
    with fields assms show ?thesis
      by (intro processed [of e h']) (simp_all add: drain_item_def)
  next
    case (Some err)
    show ?thesis
    proof (cases "message err")
      case None
      with fields Some assms show ?thesis
        by (intro thrown [of err e h'])
           (simp_all add: drain_item_def handleFailedItem_def Let_def)
    next
      case (Some m)
      show ?thesis
      proof (cases "retries it < maxRetries q")
        case True
        with fields \<open>r = Some err\<close> Some assms show ?thesis
          by (intro retry [of err e h' m])
             (simp_all add: drain_item_def handleFailedItem_def Let_def incr_failed_def
                incr_retried_def)
      next
        case False
        with fields \<open>r = Some err\<close> Some assms show ?thesis
          by (intro terminal [of err e h' m])
             (simp_all add: drain_item_def handleFailedItem_def Let_def incr_failed_def)
      qed
    qed
  qed
qed

lemma drain_cases:
  obtains
    (empty) "queue q = []" "drain q t0 t h = (None, q, h)"
  | (timeout) it rest where "queue q = it # rest" "t - t0 > processingTimeout q"
      "drain q t0 t h = (None, incr_timeouts q, h)"
  | (exn) it rest e q' t' h' where "queue q = it # rest" "\<not> t - t0 > processingTimeout q"
      "drain_item q it t h = (Some e, q', t', h')" "drain q t0 t h = (Some e, q', h')"
  | (continue) it rest q' t' h' where "queue q = it # rest" "\<not> t - t0 > processingTimeout q"
      "drain_item q it t h = (None, q', t', h')" "drain q t0 t h = drain q' t0 t' h'"
proof (cases "queue q")
  case Nil
  then show ?thesis by (intro empty) (simp_all add: drain_empty)
next
  case (Cons it rest)
  show ?thesis
  proof (cases "t - t0 > processingTimeout q")
    case True
    then show ?thesis using Cons by (intro timeout [of it rest]) (simp_all add: drain_timeout)
  next
    case False
    obtain x q' t' h' where di: "drain_item q it t h = (x, q', t', h')"
      by (metis prod_cases4)
    show ?thesis
    proof (cases x)
      case None
      then show ?thesis using Cons False di
        by (intro continue [of it rest q' t' h']) (simp_all add: drain_next)
    next
      case (Some e)
      then show ?thesis using Cons False di
        by (intro exn [of it rest e q' t' h']) (simp_all add: drain_exn)
    qed
  qed
qed

lemma same_config_refl: "same_config q q"
  by (simp add: same_config_def)

lemma same_config_trans: "same_config q q' \<Longrightarrow> same_config q' q'' \<Longrightarrow> same_config q q''"
  by (simp add: same_config_def)

lemma drain_item_config:
  assumes "queue q = it # rest" "drain_item q it t h = (x, q', t', h')"
  shows "same_config q q'"
  using assms(1)
proof (cases rule: drain_item_cases [where t = t and h = h])
qed (use assms(2) in \<open>auto simp: same_config_def incr_processed_def incr_failed_def incr_retried_def\<close>)

lemma drain_config: "drain q t0 t h = (x, qf, hf) \<Longrightarrow> same_config q qf"
proof (induction q t0 t h rule: drain_induct)
  case (step q t0 t h)
  show ?case
  proof (cases rule: drain_cases [of q t0 t h])
    case empty
    with step.prems show ?thesis by (simp add: same_config_def)
  next
    case (timeout it rest)
    with step.prems show ?thesis by (auto simp: same_config_def incr_timeouts_def)
  next
    case (exn it rest e q' t' h')
    with step.prems show ?thesis using drain_item_config [OF exn(1) exn(3)] by simp
  next
    case (continue it rest q' t' h')
    then have "same_config q q'" by (intro drain_item_config [OF continue(1) continue(3)])
    moreover have "same_config q' qf" using step.IH continue step.prems by simp
    ultimately show ?thesis by (rule same_config_trans)
  qed
qed

lemma processItem_cong:
  "handlers q' = handlers q \<Longrightarrow> handlerTimeout q' = handlerTimeout q \<Longrightarrow>
   item_data it' = item_data it \<Longrightarrow> processItem q' it' h = processItem q it h"
  unfolding processItem_def by metis

lemma fails_always_cong:
  "same_config q q' \<Longrightarrow> item_data it' = item_data it \<Longrightarrow>
   fails_always q it \<Longrightarrow> fails_always q' it'"
  using processItem_cong [of q' q it' it] by (simp add: fails_always_def same_config_def)

lemma drain_item_within_budget:
  assumes "queue q = it # rest" "drain_item q it t h = (x, q', t', h')" "within_budget q"
  shows "within_budget q'"
  using assms(1)
proof (cases rule: drain_item_cases [where t = t and h = h])
qed (use assms in \<open>auto simp: within_budget_def incr_processed_def incr_failed_def incr_retried_def\<close>)

lemma drain_within_budget:
  "drain q t0 t h = (x, qf, hf) \<Longrightarrow> within_budget q \<Longrightarrow> within_budget qf"
proof (induction q t0 t h rule: drain_induct)
  case (step q t0 t h)
  show ?case
  proof (cases rule: drain_cases [of q t0 t h])
    case empty
    with step.prems show ?thesis by simp
  next
    case (timeout it rest)
    with step.prems show ?thesis by (auto simp: within_budget_def incr_timeouts_def)
  next
    case (exn it rest e q' t' h')
    with step.prems show ?thesis
      using drain_item_within_budget [OF exn(1) exn(3)] by simp
  next
    case (continue it rest q' t' h')
    have "within_budget q'"
      by (rule drain_item_within_budget [OF continue(1) continue(3) step.prems(2)])
    then show ?thesis using step.IH continue step.prems by simp
  qed
qed

lemma drain_item_ids:
  assumes "queue q = it # rest" "drain_item q it t h = (x, q', t', h')"
  shows "map item_id (queue q') = map item_id rest \<or>
         map item_id (queue q') = map item_id rest @ [item_id it]"
  using assms(1)
proof (cases rule: drain_item_cases [where t = t and h = h])
qed (use assms(2) in \<open>auto simp: incr_processed_def incr_failed_def incr_retried_def\<close>)

lemma drain_item_failed_frame:
  assumes "queue q = it # rest" "drain_item q it t h = (x, q', t', h')" "k \<noteq> item_id it"
  shows "failedItems q' k = failedItems q k"
  using assms(1)
proof (cases rule: drain_item_cases [where t = t and h = h])
qed (use assms(2,3) in \<open>auto simp: incr_processed_def incr_failed_def incr_retried_def\<close>)

lemma drain_failed_frame:
  "drain q t0 t h = (x, qf, hf) \<Longrightarrow> k \<notin> set (map item_id (queue q)) \<Longrightarrow>
   failedItems qf k = failedItems q k"
proof (induction q t0 t h rule: drain_induct)
  case (step q t0 t h)
  show ?case
  proof (cases rule: drain_cases [of q t0 t h])
    case empty
    with step.prems show ?thesis by simp
  next
    case (timeout it rest)
    with step.prems show ?thesis by (auto simp: incr_timeouts_def)
  next
    case (exn it rest e q' t' h')
    with step.prems show ?thesis
      using drain_item_failed_frame [OF exn(1) exn(3), of k] by simp
  next
    case (continue it rest q' t' h')
    have k: "k \<noteq> item_id it" "k \<notin> set (map item_id rest)"
      using step.prems(2) continue(1) by auto
    have "set (map item_id (queue q')) = set (map item_id rest) \<or>
          set (map item_id (queue q')) = set (map item_id rest @ [item_id it])"
      using drain_item_ids [OF continue(1) continue(3)] by metis
    then have "k \<notin> set (map item_id (queue q'))"
      using k by auto
    then have "failedItems qf k = failedItems q' k"
      using step.IH [OF continue(1) continue(2) continue(3)] continue(4) step.prems(1) by simp
    then show ?thesis
      using drain_item_failed_frame [OF continue(1) continue(3) k(1)] by simp
  qed
qed

lemma drain_failing_item:
  assumes "drain q t0 t h = (None, qf, hf)" "queue qf = []"
    "it \<in> set (queue q)" "distinct (map item_id (queue q))"
    "retries it \<le> maxRetries q" "fails_always q it"
  shows "\<exists>f. failedItems qf (item_id it) = Some f \<and> logged_as f it (maxRetries q)"
  using assms
proof (induction q t0 t h arbitrary: it rule: drain_induct)
  case (step q t0 t h)
  show ?case
  proof (cases rule: drain_cases [of q t0 t h])
    case empty
    with step.prems show ?thesis by simp
  next
    case (timeout x rest)
    with step.prems show ?thesis by (auto simp: incr_timeouts_def)
  next
    case (exn x rest e q' t' h')
    with step.prems show ?thesis by simp
  next
    case (continue x rest q' t' h')
    note IH = step.IH [OF continue(1) continue(2) continue(3)]
    have run: "drain q' t0 t' h' = (None, qf, hf)"
      using continue(4) step.prems(1) by simp
    have cfg: "same_config q q'"
      by (rule drain_item_config [OF continue(1) continue(3)])
    have mr: "maxRetries q' = maxRetries q"
      using cfg by (simp add: same_config_def)
    have dist: "item_id x \<notin> set (map item_id rest)" "distinct (map item_id rest)"
      using step.prems(4) continue(1) by auto
    have fa: "fails_always (q\<lparr>queue := rest\<rparr>) it"
      by (rule fails_always_cong [OF _ _ step.prems(6)]) (simp_all add: same_config_def)
    show ?thesis
      using continue(1)
    proof (cases rule: drain_item_cases [where t = t and h = h])
      case (processed e h1)
      have "it \<noteq> x"
        using fa processed(1) by (auto simp: fails_always_def dest: spec [of _ h])
      then have "it \<in> set (queue q')"
        using step.prems(3) continue(1,3) processed(2) by (auto simp: incr_processed_def)
      moreover have "distinct (map item_id (queue q'))"
        using dist continue(3) processed(2) by (auto simp: incr_processed_def)
      moreover have "fails_always q' it"
        by (rule fails_always_cong [OF cfg refl step.prems(6)])
      ultimately show ?thesis
        using IH [OF run step.prems(2), of it] step.prems(5) mr by simp
    next
      case (thrown err e h1)
      with continue(3) show ?thesis by simp
    next
      case (retry err m e h1)
      let ?x' = "x\<lparr>retries := retries x + 1, lastError := Some m\<rparr>"
      have q': "queue q' = rest @ [?x']"
        using continue(3) retry(4) by (auto simp: incr_failed_def incr_retried_def)
      have d': "distinct (map item_id (queue q'))"
        using dist q' by simp
      show ?thesis
      proof (cases "it = x")
        case True
        have "\<exists>f. failedItems qf (item_id ?x') = Some f \<and> logged_as f ?x' (maxRetries q')"
        proof (rule IH [OF run step.prems(2) _ d'])
          show "?x' \<in> set (queue q')" using q' by simp
          show "retries ?x' \<le> maxRetries q'" using retry(3) mr by simp
          show "fails_always q' ?x'"
            using fails_always_cong [OF cfg _ step.prems(6), of ?x'] True by simp
        qed
        then show ?thesis using True mr by (simp add: logged_as_def)
      next
        case False
        then have "it \<in> set (queue q')" using step.prems(3) continue(1) q' by auto
        moreover have "fails_always q' it"
          by (rule fails_always_cong [OF cfg refl step.prems(6)])
        ultimately show ?thesis
          using IH [OF run step.prems(2) _ d', of it] step.prems(5) mr by simp
      qed
    next
      case (terminal err m e h1)
      have q': "queue q' = rest"
        using continue(3) terminal(4) by (auto simp: incr_failed_def)
      show ?thesis
      proof (cases "it = x")
        case True
        have "failedItems q' (item_id x) =
                Some (item.extend x \<lparr>finalError = m, failedAt = t + e\<rparr>)"
          using continue(3) terminal(4) by (auto simp: incr_failed_def)
        moreover have "failedItems qf (item_id x) = failedItems q' (item_id x)"
          using drain_failed_frame [OF run, of "item_id x"] dist(1) q' by simp
        moreover have "retries x = maxRetries q"
          using terminal(3) step.prems(5) True by simp
        ultimately show ?thesis
          using True by (simp add: logged_as_def item.defs)
      next
        case False
        then have "it \<in> set (queue q')" using step.prems(3) continue(1) q' by auto
        moreover have "fails_always q' it"
          by (rule fails_always_cong [OF cfg refl step.prems(6)])
        moreover have "distinct (map item_id (queue q'))" using dist q' by simp
        ultimately show ?thesis
          using IH [OF run step.prems(2), of it] step.prems(5) mr by simp
      qed
    qed
  qed
qed

lemma drain_ids:
  "drain q t0 t h = (x, qf, hf) \<Longrightarrow>
   set (map item_id (queue qf)) \<subseteq> set (map item_id (queue q))"
proof (induction q t0 t h rule: drain_induct)
  case (step q t0 t h)
  show ?case
  proof (cases rule: drain_cases [of q t0 t h])
    case empty
    with step.prems show ?thesis by simp
  next
    case (timeout it rest)
    with step.prems show ?thesis by (auto simp: incr_timeouts_def)
  next
    case (exn it rest e q' t' h')
    have "set (map item_id (queue q')) = set (map item_id rest) \<or>
          set (map item_id (queue q')) = set (map item_id rest @ [item_id it])"
      using drain_item_ids [OF exn(1) exn(3)] by metis
    with exn step.prems show ?thesis by auto
  next
    case (continue it rest q' t' h')
    have "set (map item_id (queue q')) = set (map item_id rest) \<or>
          set (map item_id (queue q')) = set (map item_id rest @ [item_id it])"
      using drain_item_ids [OF continue(1) continue(3)] by metis
    then have "set (map item_id (queue q')) \<subseteq> set (map item_id (queue q))"
      using continue(1) by auto
    moreover have "set (map item_id (queue qf)) \<subseteq> set (map item_id (queue q'))"
      using step.IH [OF continue(1) continue(2) continue(3)] continue(4) step.prems by simp
    ultimately show ?thesis by blast
  qed
qed

text \<open>The same facts for \<open>processQueue\<close>, which wraps the loop in the flag.\<close>

lemma processQueue_failing_item:
  assumes "\<not> processing q" "processQueue q now h = (None, qf, hf)" "queue qf = []"
    "it \<in> set (queue q)" "distinct (map item_id (queue q))"
    "retries it \<le> maxRetries q" "fails_always q it"
  shows "\<exists>f. failedItems qf (item_id it) = Some f \<and> logged_as f it (maxRetries q)"
proof -
  obtain q' where d: "drain (q\<lparr>processing := True\<rparr>) now now h = (None, q', hf)"
    and qf: "qf = q'\<lparr>processing := False\<rparr>"
    using assms(1,2) by (auto simp: processQueue_def split: prod.splits)
  have "fails_always (q\<lparr>processing := True\<rparr>) it"
    using assms(7) processItem_cong [of "q\<lparr>processing := True\<rparr>" q it it]
    by (simp add: fails_always_def)
  then have "\<exists>f. failedItems q' (item_id it) = Some f \<and>
               logged_as f it (maxRetries (q\<lparr>processing := True\<rparr>))"
    using drain_failing_item [OF d, of it] assms qf by simp
  then show ?thesis using qf by simp
qed

lemma processQueue_within_budget:
  assumes "processQueue q now h = (x, qf, hf)" "within_budget q"
  shows "within_budget qf"
proof (cases "processing q")
  case True
  with assms show ?thesis by (simp add: processQueue_def)
next
  case False
  then obtain q' where d: "drain (q\<lparr>processing := True\<rparr>) now now h = (x, q', hf)"
    and qf: "qf = q'\<lparr>processing := False\<rparr>"
    using assms(1) by (auto simp: processQueue_def split: prod.splits)
  have "within_budget (q\<lparr>processing := True\<rparr>)"
    using assms(2) by (simp add: within_budget_def)
  then have "within_budget q'" by (rule drain_within_budget [OF d])
  then show ?thesis using qf by (simp add: within_budget_def)
qed

lemma processQueue_ids:
  assumes "processQueue q now h = (x, qf, hf)"
  shows "set (map item_id (queue qf)) \<subseteq> set (map item_id (queue q))"
proof (cases "processing q")
  case True
  with assms show ?thesis by (simp add: processQueue_def)
next
  case False
  then obtain q' where d: "drain (q\<lparr>processing := True\<rparr>) now now h = (x, q', hf)"
    and qf: "qf = q'\<lparr>processing := False\<rparr>"
    using assms(1) by (auto simp: processQueue_def split: prod.splits)
  show ?thesis using drain_ids [OF d] qf by simp
qed

lemma processQueue_failed_frame:
  assumes "processQueue q now h = (x, qf, hf)" "k \<notin> set (map item_id (queue q))"
  shows "failedItems qf k = failedItems q k"
proof (cases "processing q")
  case True
  with assms show ?thesis by (simp add: processQueue_def)
next
  case False
  then obtain q' where d: "drain (q\<lparr>processing := True\<rparr>) now now h = (x, q', hf)"
    and qf: "qf = q'\<lparr>processing := False\<rparr>"
    using assms(1) by (auto simp: processQueue_def split: prod.splits)
  show ?thesis using drain_failed_frame [OF d, of k] assms(2) qf by simp
qed

lemma fails_readably_always: "fails_readably q it \<Longrightarrow> fails_always q it"
  by (auto simp: fails_readably_def fails_always_def)

lemma fails_readably_cong:
  "handlers q' = handlers q \<Longrightarrow> handlerTimeout q' = handlerTimeout q \<Longrightarrow>
   item_data it' = item_data it \<Longrightarrow> fails_readably q it \<Longrightarrow> fails_readably q' it'"
  using processItem_cong [of q' q it' it] by (simp add: fails_readably_def)

lemma race_bounds: "0 \<le> snd (race T out) \<and> snd (race T out) \<le> max 0 T"
  by (cases out) auto

lemma fold_max_bounds:
  "(\<forall>x \<in> set xs. 0 \<le> x \<and> x \<le> B) \<Longrightarrow> 0 \<le> a \<Longrightarrow> a \<le> B \<Longrightarrow>
   0 \<le> fold max xs a \<and> fold max xs a \<le> (B :: int)"
  by (induction xs arbitrary: a) auto

lemma processItem_elapsed:
  assumes "processItem q it h = (r, e, h')"
  shows "0 \<le> e \<and> e \<le> max 0 (handlerTimeout q)"
proof (cases "call_handlers (handlers q) (item_data it) h")
  case (Pair res h1)
  show ?thesis
  proof (cases res)
    case (Inl v)
    with Pair assms show ?thesis by (simp add: processItem_def)
  next
    case (Inr outs)
    have "0 \<le> fold max (map snd (map (race (handlerTimeout q)) outs)) 0 \<and>
          fold max (map snd (map (race (handlerTimeout q)) outs)) 0 \<le> max 0 (handlerTimeout q)"
      by (rule fold_max_bounds) (auto simp: race_bounds)
    moreover have "e = fold max (map snd (map (race (handlerTimeout q)) outs)) 0"
      using Pair Inr assms by (simp add: processItem_def Let_def split: if_splits)
    ultimately show ?thesis by simp
  qed
qed

lemma drain_single_failing:
  assumes "queue q = [it]" "0 \<le> retries it" "retries it \<le> maxRetries q"
    "fails_readably q it"
    "maxRetries q * max 0 (handlerTimeout q) \<le> processingTimeout q"
    "t - t0 \<le> retries it * max 0 (handlerTimeout q)"
  shows "\<exists>qf hf. drain q t0 t h = (None, qf, hf) \<and> queue qf = []"
  using assms
proof (induction "nat (maxRetries q - retries it)" arbitrary: q it t h)
  case 0
  then have top: "retries it = maxRetries q" by simp
  let ?T = "max 0 (handlerTimeout q)"
  have "retries it * ?T \<le> maxRetries q * ?T" using top by simp
  then have nt: "\<not> t - t0 > processingTimeout q" using "0.prems"(5,6) by linarith
  have "fails_readably (q\<lparr>queue := []\<rparr>) it"
    by (rule fails_readably_cong [OF _ _ refl "0.prems"(4)]) simp_all
  then obtain err where f: "fst (processItem (q\<lparr>queue := []\<rparr>) it h) = Some err"
      "message err \<noteq> None"
    unfolding fails_readably_def by blast
  show ?case
    using "0.prems"(1)
  proof (cases rule: drain_item_cases [where t = t and h = h])
    case (processed e h')
    with f show ?thesis by simp
  next
    case (thrown err' e h')
    with f show ?thesis by simp
  next
    case (retry err' m e h')
    with top show ?thesis by simp
  next
    case (terminal err' m e h')
    have "drain q t0 t h = drain ((incr_failed (q\<lparr>queue := []\<rparr>))\<lparr>failedItems :=
             (failedItems q)(item_id it \<mapsto> item.extend it \<lparr>finalError = m, failedAt = t + e\<rparr>)\<rparr>)
             t0 (t + e) h'"
      by (rule drain_next [OF "0.prems"(1) nt terminal(4)])
    then show ?thesis by (simp add: drain_empty incr_failed_def)
  qed
next
  case (Suc n)
  then have below: "retries it < maxRetries q" by linarith
  let ?T = "max 0 (handlerTimeout q)"
  have T0: "0 \<le> ?T" by simp
  have "retries it * ?T \<le> maxRetries q * ?T"
    using below T0 by (simp add: mult_right_mono)
  then have nt: "\<not> t - t0 > processingTimeout q" using Suc.prems(5,6) by linarith
  have "fails_readably (q\<lparr>queue := []\<rparr>) it"
    by (rule fails_readably_cong [OF _ _ refl Suc.prems(4)]) simp_all
  then obtain err where f: "fst (processItem (q\<lparr>queue := []\<rparr>) it h) = Some err"
      "message err \<noteq> None"
    unfolding fails_readably_def by blast
  show ?case
    using Suc.prems(1)
  proof (cases rule: drain_item_cases [where t = t and h = h])
    case (processed e h')
    with f show ?thesis by simp
  next
    case (thrown err' e h')
    with f show ?thesis by simp
  next
    case (terminal err' m e h')
    with below show ?thesis by simp
  next
    case (retry err' m e h')
    let ?it' = "it\<lparr>retries := retries it + 1, lastError := Some m\<rparr>"
    let ?q' = "(incr_retried (incr_failed (q\<lparr>queue := []\<rparr>)))\<lparr>queue := [] @ [?it']\<rparr>"
    have step: "drain q t0 t h = drain ?q' t0 (t + e) h'"
      by (rule drain_next [OF Suc.prems(1) nt retry(4)])
    have el: "0 \<le> e \<and> e \<le> ?T"
      using processItem_elapsed [OF retry(1)] by simp
    have cfg: "maxRetries ?q' = maxRetries q" "handlerTimeout ?q' = handlerTimeout q"
      "processingTimeout ?q' = processingTimeout q" "handlers ?q' = handlers q"
      by (simp_all add: incr_failed_def incr_retried_def)
    have "\<exists>qf hf. drain ?q' t0 (t + e) h' = (None, qf, hf) \<and> queue qf = []"
    proof (rule Suc.hyps(1))
      show "n = nat (maxRetries ?q' - retries ?it')" using Suc.hyps(2) cfg by simp
      show "queue ?q' = [?it']" by simp
      show "0 \<le> retries ?it'" using Suc.prems(2) by simp
      show "retries ?it' \<le> maxRetries ?q'" using below cfg by simp
      show "fails_readably ?q' ?it'"
        by (rule fails_readably_cong [OF cfg(4) cfg(2) _ Suc.prems(4)]) simp
      show "maxRetries ?q' * max 0 (handlerTimeout ?q') \<le> processingTimeout ?q'"
        using Suc.prems(5) cfg by simp
      have "t + e - t0 \<le> retries it * ?T + ?T" using Suc.prems(6) el by linarith
      also have "\<dots> = (retries it + 1) * ?T" by (simp add: algebra_simps)
      finally show "t + e - t0 \<le> retries ?it' * max 0 (handlerTimeout ?q')"
        using cfg by simp
    qed
    then show ?thesis using step by simp
  qed
qed

lemma processQueue_single_failing:
  assumes "\<not> processing q" "queue q = [it]" "0 \<le> retries it" "retries it \<le> maxRetries q"
    "fails_readably q it"
    "maxRetries q * max 0 (handlerTimeout q) \<le> processingTimeout q"
  shows "\<exists>qf hf f. processQueue q now h = (None, qf, hf) \<and> queue qf = [] \<and>
           failedItems qf (item_id it) = Some f \<and> logged_as f it (maxRetries q)"
proof -
  let ?q = "q\<lparr>processing := True\<rparr>"
  have "fails_readably ?q it"
    by (rule fails_readably_cong [OF _ _ refl assms(5)]) simp_all
  then obtain q' hf where d: "drain ?q now now h = (None, q', hf)" and e: "queue q' = []"
    using drain_single_failing [of ?q it now now h] assms by auto
  then have run: "processQueue q now h = (None, q'\<lparr>processing := False\<rparr>, hf)"
    using assms(1) by (simp add: processQueue_def)
  have "\<exists>f. failedItems (q'\<lparr>processing := False\<rparr>) (item_id it) = Some f \<and>
          logged_as f it (maxRetries q)"
    by (rule processQueue_failing_item [OF assms(1) run])
       (use e assms fails_readably_always in auto)
  then show ?thesis using run e by auto
qed

text \<open>What the promises of the handlers make of an item.\<close>

lemma race_settles: "fst (race T out) = settles_in_time T out"
  by (cases out) simp_all

lemma call_handlers_outcomes:
  assumes "\<forall>f \<in> set fs. \<forall>h v. fst (f d h) \<noteq> Throws v"
  shows "\<exists>outs h'. call_handlers fs d h = (Inr outs, h') \<and>
           list_all2 (\<lambda>f out. \<exists>h0. out = fst (f d h0)) fs outs"
  using assms
proof (induction fs arbitrary: h)
  case Nil
  then show ?case by simp
next
  case (Cons f fs)
  obtain out h1 where f: "f d h = (out, h1)" by (cases "f d h")
  have nt: "\<And>v. out \<noteq> Throws v" using Cons.prems f by (metis fst_conv list.set_intros(1))
  obtain outs h' where r: "call_handlers fs d h1 = (Inr outs, h')"
      "list_all2 (\<lambda>f out. \<exists>h0. out = fst (f d h0)) fs outs"
    using Cons.IH [of h1] Cons.prems by auto
  have "call_handlers (f # fs) d h = (Inr (out # outs), h')"
    using f r(1) nt by (cases out) auto
  moreover have "\<exists>h0. out = fst (f d h0)" using f by (metis fst_conv)
  ultimately show ?case using r(2) by auto
qed

lemma processItem_settled:
  assumes "call_handlers (handlers q) (item_data it) h = (Inr outs, h')"
  shows "fst (processItem q it h) =
           (if \<exists>out \<in> set outs. \<not> settles_in_time (handlerTimeout q) out
            then Some (HandlersFailed
                   (length (filter (\<lambda>out. \<not> settles_in_time (handlerTimeout q) out) outs)))
            else None)"
proof -
  let ?late = "\<lambda>out. \<not> settles_in_time (handlerTimeout q) out"
  have n: "filter (\<lambda>r. \<not> fst r) (map (race (handlerTimeout q)) outs) =
           map (race (handlerTimeout q)) (filter ?late outs)"
    by (simp add: filter_map comp_def race_settles)
  show ?thesis
  proof (cases "\<exists>out \<in> set outs. ?late out")
    case True
    then have "filter ?late outs \<noteq> []" by (simp add: filter_empty_conv)
    then show ?thesis using assms True by (simp add: processItem_def Let_def n)
  next
    case False
    then have "filter ?late outs = []" by (simp add: filter_empty_conv)
    then show ?thesis using assms False by (simp add: processItem_def Let_def n)
  qed
qed

lemma processItem_thrown:
  "call_handlers (handlers q) (item_data it) h = (Inl v, h') \<Longrightarrow>
   processItem q it h = (Some (HandlerThrew v), 0, h')"
  by (simp add: processItem_def)

lemma rejects_or_times_out_fails:
  assumes "rejects_or_times_out q it"
  shows "\<exists>n. fst (processItem q it h) = Some (HandlersFailed n) \<and> 0 < n"
proof -
  let ?T = "handlerTimeout q"
  have nothrow: "\<forall>f \<in> set (handlers q). \<forall>h v. fst (f (item_data it) h) \<noteq> Throws v"
    using assms by (simp add: rejects_or_times_out_def)
  obtain g where g: "g \<in> set (handlers q)"
      "\<And>h. \<not> settles_in_time ?T (fst (g (item_data it) h))"
    using assms unfolding rejects_or_times_out_def by blast
  obtain outs h' where c: "call_handlers (handlers q) (item_data it) h = (Inr outs, h')"
      and l: "list_all2 (\<lambda>f out. \<exists>h0. out = fst (f (item_data it) h0)) (handlers q) outs"
    using call_handlers_outcomes [OF nothrow] by blast
  obtain i where i: "i < length (handlers q)" "handlers q ! i = g"
    using g(1) by (auto simp: in_set_conv_nth)
  have "\<exists>h0. outs ! i = fst (g (item_data it) h0)"
    using l i by (auto simp: list_all2_conv_all_nth)
  then have "\<not> settles_in_time ?T (outs ! i)" using g(2) by auto
  moreover have "outs ! i \<in> set outs" using l i(1) by (auto simp: list_all2_conv_all_nth)
  ultimately have ex: "\<exists>out \<in> set outs. \<not> settles_in_time ?T out" by blast
  then have "0 < length (filter (\<lambda>out. \<not> settles_in_time ?T out) outs)"
    by (simp add: filter_empty_conv)
  then show ?thesis using processItem_settled [OF c] ex by simp
qed

lemma rejects_or_times_out_readably:
  assumes "rejects_or_times_out q it"
  shows "fails_readably q it"
  unfolding fails_readably_def
proof
  fix h
  obtain n where "fst (processItem q it h) = Some (HandlersFailed n)"
    using rejects_or_times_out_fails [OF assms, of h] by auto
  then show "\<exists>err. fst (processItem q it h) = Some err \<and> message err \<noteq> None" by simp
qed

section \<open>Properties of the update queue\<close>

subsection \<open>Admission control\<close>

text \<open>
  Claim C5. When the number of pending items has reached \<open>maxQueueSize\<close>, \<open>add\<close> fails
  with the queue-full error at once: the queue, the failure log, the counters and the
  handlers' world are what they were, no handler has run and nothing has been removed.
  When the count is below the ceiling and the payload is valid, the new item (fresh id,
  no retries) is appended at the tail; an idle queue then goes on to drain, a queue that
  is already draining just keeps the item. The ceiling is 1000 when the options give
  none.
\<close>

theorem add_admission:
  "(int (length (queue q)) \<ge> maxQueueSize q \<longrightarrow>
      add q d now rnd h = (Some (QueueFull (maxQueueSize q)), q, h)) \<and>
   (int (length (queue q)) < maxQueueSize q \<and> validateData d \<longrightarrow>
      add q d now rnd h =
        (let q1 = q\<lparr>queue := queue q @
                   [\<lparr> item_id = generateItemId now rnd, item_data = d, addedAt = now,
                      retries = 0, lastError = None \<rparr>]\<rparr>
         in if processing q then (None, q1, h) else processQueue q1 now h)) \<and>
   (opt_maxQueueSize opts = None \<longrightarrow>
      maxQueueSize (constructor opts :: 'h price_queue) = 1000)"
  by (simp add: add_def Let_def constructor_def)

theorem add_admission_witness:
  "add ((priceQueue :: unit price_queue)\<lparr>queue := replicate 1000
          \<lparr> item_id = (0, ''r''), item_data = JObject [], addedAt = 0, retries = 0,
            lastError = None \<rparr>\<rparr>) (JObject []) 7 ''x'' ()
     = (Some (QueueFull 1000),
        priceQueue\<lparr>queue := replicate 1000
          \<lparr> item_id = (0, ''r''), item_data = JObject [], addedAt = 0, retries = 0,
            lastError = None \<rparr>\<rparr>, ()) \<and>
   add ((priceQueue :: unit price_queue)\<lparr>processing := True\<rparr>) (JObject []) 7 ''x'' ()
     = (None,
        priceQueue\<lparr>processing := True, queue :=
          [\<lparr> item_id = (7, ''x''), item_data = JObject [], addedAt = 7, retries = 0,
             lastError = None \<rparr>]\<rparr>, ()) \<and>
   maxQueueSize (constructor \<lparr> opt_maxQueueSize = None, opt_processingTimeout = None,
       opt_handlerTimeout = None, opt_maxRetries = None \<rparr> :: unit price_queue) = 1000"
  using add_admission [of "(priceQueue :: unit price_queue)\<lparr>queue := replicate 1000
          \<lparr> item_id = (0, ''r''), item_data = JObject [], addedAt = 0, retries = 0,
            lastError = None \<rparr>\<rparr>"
          "JObject []" 7 "''x''" "()"
          "\<lparr> opt_maxQueueSize = None, opt_processingTimeout = None,
             opt_handlerTimeout = None, opt_maxRetries = None \<rparr>"]
        add_admission [of "(priceQueue :: unit price_queue)\<lparr>processing := True\<rparr>"
          "JObject []" 7 "''x''" "()"
          "\<lparr> opt_maxQueueSize = None, opt_processingTimeout = None,
             opt_handlerTimeout = None, opt_maxRetries = None \<rparr>"]
  by (simp add: priceQueue_def constructor_def validateData_def generateItemId_def)

subsection \<open>Retry budget and failure log\<close>

text \<open>
  For a failure whose message can be read, \<open>handleFailedItem\<close> either puts the item back
  at the tail of the queue with its retry count one higher (while the count is below
  \<open>maxRetries\<close>), or files it in the failure log under its id with the final error and
  the time of failure and leaves the queue alone. A drain keeps every queued retry count
  within \<open>maxRetries\<close>, queues no id that was not queued before, and touches no
  failure-log entry of an id that is not queued: an item that has left for the failure
  log does not come back and its entry stays. An item whose handlers fail on every
  attempt, waiting in an idle queue of distinct ids, is in the failure log with retry
  count exactly \<open>maxRetries\<close> once a drain has emptied the queue. When it is the only
  item, its failures have a message, and \<open>maxRetries\<close> handler timeouts fit into the
  session timeout, one drain does empty the queue and leave it there.

  Whether an attempt fails is decided by the promises: when every handler has returned
  one, the item fails exactly when some promise rejects or is not fulfilled before the
  handler timeout, and the error counts those promises. So an item with a handler whose
  promise always rejects or times out, and with no handler that throws, fails on every
  attempt with a readable message, and alone in an idle queue it is filed by one drain.
\<close>

theorem failing_item_retried_then_logged:
  "(message err = Some m \<and> retries it < maxRetries q \<longrightarrow>
      handleFailedItem q it err now =
        (None, (incr_retried (incr_failed q))\<lparr>queue :=
           queue q @ [it\<lparr>retries := retries it + 1, lastError := Some m\<rparr>]\<rparr>)) \<and>
   (message err = Some m \<and> \<not> retries it < maxRetries q \<longrightarrow>
      handleFailedItem q it err now =
        (None, (incr_failed q)\<lparr>failedItems := (failedItems q)(item_id it \<mapsto>
           item.extend it \<lparr>finalError = m, failedAt = now\<rparr>)\<rparr>)) \<and>
   (processQueue q now h = (x, qf, hf) \<and> within_budget q \<longrightarrow> within_budget qf) \<and>
   (processQueue q now h = (x, qf, hf) \<longrightarrow>
      set (map item_id (queue qf)) \<subseteq> set (map item_id (queue q)) \<and>
      (\<forall>k. k \<notin> set (map item_id (queue q)) \<longrightarrow> failedItems qf k = failedItems q k)) \<and>
   (\<not> processing q \<and> processQueue q now h = (None, qf, hf) \<and> queue qf = [] \<and>
    it \<in> set (queue q) \<and> distinct (map item_id (queue q)) \<and>
    retries it \<le> maxRetries q \<and> fails_always q it \<longrightarrow>
      (\<exists>f. failedItems qf (item_id it) = Some f \<and> logged_as f it (maxRetries q))) \<and>
   (\<not> processing q \<and> queue q = [it] \<and> 0 \<le> retries it \<and> retries it \<le> maxRetries q \<and>
    fails_readably q it \<and>
    maxRetries q * max 0 (handlerTimeout q) \<le> processingTimeout q \<longrightarrow>
      (\<exists>q' h' f. processQueue q now h = (None, q', h') \<and> queue q' = [] \<and>
         failedItems q' (item_id it) = Some f \<and> logged_as f it (maxRetries q))) \<and>
   (call_handlers (handlers q) (item_data it) h = (Inr outs, hs) \<longrightarrow>
      fst (processItem q it h) =
        (if \<exists>out \<in> set outs. \<not> settles_in_time (handlerTimeout q) out
         then Some (HandlersFailed
                (length (filter (\<lambda>out. \<not> settles_in_time (handlerTimeout q) out) outs)))
         else None)) \<and>
   (rejects_or_times_out q it \<longrightarrow>
      (\<exists>n. fst (processItem q it h) = Some (HandlersFailed n) \<and> 0 < n) \<and>
      fails_readably q it \<and> fails_always q it) \<and>
   (\<not> processing q \<and> queue q = [it] \<and> 0 \<le> retries it \<and> retries it \<le> maxRetries q \<and>
    rejects_or_times_out q it \<and>
    maxRetries q * max 0 (handlerTimeout q) \<le> processingTimeout q \<longrightarrow>
      (\<exists>q' h' f. processQueue q now h = (None, q', h') \<and> queue q' = [] \<and>
         failedItems q' (item_id it) = Some f \<and> logged_as f it (maxRetries q)))"
proof (intro conjI impI allI)
  assume "message err = Some m \<and> retries it < maxRetries q"
  then show "handleFailedItem q it err now =
        (None, (incr_retried (incr_failed q))\<lparr>queue :=
           queue q @ [it\<lparr>retries := retries it + 1, lastError := Some m\<rparr>]\<rparr>)"
    by (simp add: handleFailedItem_def Let_def incr_failed_def incr_retried_def)
next
  assume "message err = Some m \<and> \<not> retries it < maxRetries q"
  then show "handleFailedItem q it err now =
        (None, (incr_failed q)\<lparr>failedItems := (failedItems q)(item_id it \<mapsto>
           item.extend it \<lparr>finalError = m, failedAt = now\<rparr>)\<rparr>)"
    by (simp add: handleFailedItem_def Let_def incr_failed_def)
next
  assume "processQueue q now h = (x, qf, hf) \<and> within_budget q"
  then show "within_budget qf"
    using processQueue_within_budget [of q now h x qf hf] by simp
next
  assume "processQueue q now h = (x, qf, hf)"
  then show "set (map item_id (queue qf)) \<subseteq> set (map item_id (queue q))"
    by (rule processQueue_ids)
next
  fix k
  assume "processQueue q now h = (x, qf, hf)" "k \<notin> set (map item_id (queue q))"
  then show "failedItems qf k = failedItems q k" by (rule processQueue_failed_frame)
next
  assume a: "\<not> processing q \<and> processQueue q now h = (None, qf, hf) \<and> queue qf = [] \<and>
    it \<in> set (queue q) \<and> distinct (map item_id (queue q)) \<and>
    retries it \<le> maxRetries q \<and> fails_always q it"
  show "\<exists>f. failedItems qf (item_id it) = Some f \<and> logged_as f it (maxRetries q)"
    by (rule processQueue_failing_item [of q now h qf hf it]) (use a in simp_all)
next
  assume a: "\<not> processing q \<and> queue q = [it] \<and> 0 \<le> retries it \<and>
    retries it \<le> maxRetries q \<and> fails_readably q it \<and>
    maxRetries q * max 0 (handlerTimeout q) \<le> processingTimeout q"
  show "\<exists>q' h' f. processQueue q now h = (None, q', h') \<and> queue q' = [] \<and>
         failedItems q' (item_id it) = Some f \<and> logged_as f it (maxRetries q)"
    by (rule processQueue_single_failing) (use a in simp_all)
next
  assume "call_handlers (handlers q) (item_data it) h = (Inr outs, hs)"
  then show "fst (processItem q it h) =
        (if \<exists>out \<in> set outs. \<not> settles_in_time (handlerTimeout q) out
         then Some (HandlersFailed
                (length (filter (\<lambda>out. \<not> settles_in_time (handlerTimeout q) out) outs)))
         else None)"
    by (rule processItem_settled)
next
  assume "rejects_or_times_out q it"
  then show "\<exists>n. fst (processItem q it h) = Some (HandlersFailed n) \<and> 0 < n"
    by (rule rejects_or_times_out_fails)
next
  assume "rejects_or_times_out q it"
  then show "fails_readably q it" by (rule rejects_or_times_out_readably)
next
  assume "rejects_or_times_out q it"
  then show "fails_always q it"
    by (intro fails_readably_always rejects_or_times_out_readably)
next
  assume a: "\<not> processing q \<and> queue q = [it] \<and> 0 \<le> retries it \<and>
    retries it \<le> maxRetries q \<and> rejects_or_times_out q it \<and>
    maxRetries q * max 0 (handlerTimeout q) \<le> processingTimeout q"
  then have "fails_readably q it" by (intro rejects_or_times_out_readably) simp
  then show "\<exists>q' h' f. processQueue q now h = (None, q', h') \<and> queue q' = [] \<and>
         failedItems q' (item_id it) = Some f \<and> logged_as f it (maxRetries q)"
    by (intro processQueue_single_failing) (use a in simp_all)
qed

theorem failing_item_retried_then_logged_witness:
  "handleFailedItem
     ((priceQueue :: unit price_queue)\<lparr>handlers := [\<lambda>d h. (Rejected 0, h), \<lambda>d h. (Pending, h)]\<rparr>)
     \<lparr> item_id = (100, ''x''), item_data = JObject [], addedAt = 100, retries = 0,
       lastError = None \<rparr> (HandlersFailed 2) 5100
   = (None, priceQueue\<lparr>handlers := [\<lambda>d h. (Rejected 0, h), \<lambda>d h. (Pending, h)],
        queue := [\<lparr> item_id = (100, ''x''), item_data = JObject [], addedAt = 100,
                    retries = 1, lastError = Some (MsgHandlersFailed 2) \<rparr>],
        stats := \<lparr> processed = 0, failed = 1, retried = 1, timeouts = 0 \<rparr>\<rparr>) \<and>
   fst (processItem
     ((priceQueue :: unit price_queue)\<lparr>handlers := [\<lambda>d h. (Rejected 0, h), \<lambda>d h. (Pending, h)]\<rparr>)
     \<lparr> item_id = (100, ''x''), item_data = JObject [], addedAt = 100, retries = 0,
       lastError = None \<rparr> ()) = Some (HandlersFailed 2) \<and>
   (\<exists>f. failedItems (fst (snd (processQueue
           ((priceQueue :: unit price_queue)\<lparr>handlers := [\<lambda>d h. (Rejected 0, h), \<lambda>d h. (Pending, h)],
              queue := [\<lparr> item_id = (100, ''x''), item_data = JObject [], addedAt = 100,
                          retries = 0, lastError = None \<rparr>]\<rparr>) 100 ()))) (100, ''x'') = Some f \<and>
        logged_as f \<lparr> item_id = (100, ''x''), item_data = JObject [], addedAt = 100,
                       retries = 0, lastError = None \<rparr> 3 \<and>
        finalError f = MsgHandlersFailed 2 \<and> failedAt f = 20100) \<and>
   queue (fst (snd (processQueue
           ((priceQueue :: unit price_queue)\<lparr>handlers := [\<lambda>d h. (Rejected 0, h), \<lambda>d h. (Pending, h)],
              queue := [\<lparr> item_id = (100, ''x''), item_data = JObject [], addedAt = 100,
                          retries = 0, lastError = None \<rparr>]\<rparr>) 100 ()))) = []"
proof -
  let ?it = "\<lparr> item_id = (100, ''x''), item_data = JObject [], addedAt = 100, retries = 0,
       lastError = None \<rparr>"
  let ?q = "(priceQueue :: unit price_queue)\<lparr>handlers :=
       [\<lambda>d h. (Rejected 0, h), \<lambda>d h. (Pending, h)]\<rparr>"
  let ?start = "?q\<lparr>queue := [?it]\<rparr>"
  let ?qf = "?q\<lparr>failedItems := [(100, ''x'') \<mapsto>
       item.extend (?it\<lparr>retries := 3, lastError := Some (MsgHandlersFailed 2)\<rparr>)
         \<lparr>finalError = MsgHandlersFailed 2, failedAt = 20100\<rparr>],
       stats := \<lparr> processed = 0, failed = Suc (Suc (Suc (Suc 0))),
         retried = Suc (Suc (Suc 0)), timeouts = 0 \<rparr>\<rparr>"
  have run: "processQueue ?start 100 () = (None, ?qf, ())"
    by (simp add: processQueue_def priceQueue_def constructor_def drain.simps drain_item_def
        processItem_def handleFailedItem_def Let_def incr_failed_def incr_retried_def
        incr_processed_def numeral_2_eq_2)
  have rt: "rejects_or_times_out ?q ?it" "rejects_or_times_out ?start ?it"
    by (simp_all add: rejects_or_times_out_def priceQueue_def constructor_def)
  have outs: "call_handlers (handlers ?q) (item_data ?it) () = (Inr [Rejected 0, Pending], ())"
    by simp
  have step1: "handleFailedItem ?q ?it (HandlersFailed 2) 5100 =
      (None, (incr_retried (incr_failed ?q))\<lparr>queue :=
           queue ?q @ [?it\<lparr>retries := retries ?it + 1, lastError := Some (MsgHandlersFailed 2)\<rparr>]\<rparr>)"
    using failing_item_retried_then_logged [of "HandlersFailed 2" "MsgHandlersFailed 2" ?it ?q]
    by (simp add: priceQueue_def constructor_def)
  have count: "fst (processItem ?q ?it ()) =
      (if \<exists>out \<in> set [Rejected 0, Pending]. \<not> settles_in_time (handlerTimeout ?q) out
         then Some (HandlersFailed
                (length (filter (\<lambda>out. \<not> settles_in_time (handlerTimeout ?q) out)
                   [Rejected 0, Pending])))
         else None)"
    by (rule failing_item_retried_then_logged [where q = ?q and it = ?it and h = "()"
          and outs = "[Rejected 0, Pending]" and hs = "()",
          THEN conjunct2, THEN conjunct2, THEN conjunct2, THEN conjunct2,
          THEN conjunct2, THEN conjunct2, THEN conjunct1, rule_format, OF outs])
  have fails: "(\<exists>n. fst (processItem ?q ?it ()) = Some (HandlersFailed n) \<and> 0 < n) \<and>
      fails_readably ?q ?it \<and> fails_always ?q ?it"
    by (rule failing_item_retried_then_logged [where q = ?q and it = ?it and h = "()",
          THEN conjunct2, THEN conjunct2, THEN conjunct2, THEN conjunct2,
          THEN conjunct2, THEN conjunct2, THEN conjunct2, THEN conjunct1, rule_format, OF rt(1)])
  have complete: "\<exists>q' h' f. processQueue ?start 100 () = (None, q', h') \<and> queue q' = [] \<and>
      failedItems q' (item_id ?it) = Some f \<and> logged_as f ?it (maxRetries ?start)"
    by (rule failing_item_retried_then_logged [where q = ?start and it = ?it and now = 100
          and h = "()", THEN conjunct2, THEN conjunct2, THEN conjunct2, THEN conjunct2,
          THEN conjunct2, THEN conjunct2, THEN conjunct2, THEN conjunct2, rule_format])
       (use rt(2) in \<open>simp add: priceQueue_def constructor_def\<close>)
  show ?thesis
    using step1 count fails run complete
    by (simp add: priceQueue_def constructor_def incr_failed_def incr_retried_def
        logged_as_def item.defs numeral_2_eq_2)
qed

text \<open>
  Claim C6 has every item whose handlers always fail retried \<open>maxRetries\<close> times and
  then filed in the failure log. The exported queue with a handler that throws \<open>null\<close>
  before it returns a promise does otherwise. The handler fails on every call; \<open>add\<close>
  queues the item and drains; the item is taken off the queue, and \<open>handleFailedItem\<close>
  raises a \<open>TypeError\<close> when it reads the message of the thrown value. \<open>add\<close> ends with
  that error: the item has been counted as failed once, has never been retried, and is
  neither in the queue nor in the failure log. With a handler whose promise is rejected
  at once, the same submission is retried three times and filed.
\<close>

theorem thrown_null_drops_item:
  "fails_always
     ((priceQueue :: unit price_queue)\<lparr>handlers := [\<lambda>d h. (Throws JNull, h)]\<rparr>)
     \<lparr> item_id = (100, ''x''), item_data = JObject [], addedAt = 100, retries = 0,
       lastError = None \<rparr> \<and>
   add ((priceQueue :: unit price_queue)\<lparr>handlers := [\<lambda>d h. (Throws JNull, h)]\<rparr>)
       (JObject []) 100 ''x'' ()
     = (Some TypeError,
        priceQueue\<lparr>handlers := [\<lambda>d h. (Throws JNull, h)],
          stats := \<lparr> processed = 0, failed = 1, retried = 0, timeouts = 0 \<rparr>\<rparr>, ()) \<and>
   queue (priceQueue\<lparr>handlers := [\<lambda>d h. (Throws JNull, h)],
          stats := \<lparr> processed = 0, failed = 1, retried = 0, timeouts = 0 \<rparr>\<rparr>
            :: unit price_queue) = [] \<and>
   failedItems (priceQueue\<lparr>handlers := [\<lambda>d h. (Throws JNull, h)],
          stats := \<lparr> processed = 0, failed = 1, retried = 0, timeouts = 0 \<rparr>\<rparr>
            :: unit price_queue) (100, ''x'') = None \<and>
   add ((priceQueue :: unit price_queue)\<lparr>handlers := [\<lambda>d h. (Rejected 0, h)]\<rparr>)
       (JObject []) 100 ''x'' ()
     = (None,
        priceQueue\<lparr>handlers := [\<lambda>d h. (Rejected 0, h)],
          failedItems := [(100, ''x'') \<mapsto>
            \<lparr> item_id = (100, ''x''), item_data = JObject [], addedAt = 100, retries = 3,
              lastError = Some (MsgHandlersFailed 1),
              finalError = MsgHandlersFailed 1, failedAt = 100 \<rparr>],
          stats := \<lparr> processed = 0, failed = 4, retried = 3, timeouts = 0 \<rparr>\<rparr>, ())"
  by (simp add: fails_always_def add_def validateData_def generateItemId_def
        processQueue_def priceQueue_def constructor_def drain.simps drain_item_def
        processItem_def handleFailedItem_def Let_def incr_failed_def incr_retried_def
        incr_processed_def item.defs)

section \<open>Reasoning about the stores\<close>

lemma map_of_update_alist [simp]:
  "map_of (AList.update k v al) k' = (if k' = k then Some v else map_of al k')"
  by (simp add: update_conv')

lemma memory_save_history:
  assumes "\<not> nullish token" "\<not> nullish pr"
  shows "memory_getPriceHistory k (snd (memory_saveTokenPrice token pr now m)) =
     (if k = getp token ''poolAddress''
      then take 24 (new_entry pr now # memory_getPriceHistory k m)
      else memory_getPriceHistory k m)"
  using assms
  by (auto simp: memory_saveTokenPrice_def memory_getPriceHistory_def Let_def new_entry_def
      split: option.splits)

lemma memory_save_history_fail:
  assumes "nullish token \<or> nullish pr"
  shows "memory_getPriceHistory k (snd (memory_saveTokenPrice token pr now m)) =
           memory_getPriceHistory k m"
  using assms
  by (auto simp: memory_saveTokenPrice_def memory_getPriceHistory_def Let_def
      split: option.splits)

lemma memory_save_ok:
  "fst (memory_saveTokenPrice token pr now m) = Inr r \<longleftrightarrow>
     \<not> nullish token \<and> \<not> nullish pr \<and> r = JBool True"
  by (auto simp: memory_saveTokenPrice_def Let_def)

lemma take_append_take: "take n (xs @ take n ys) = take n (xs @ ys)"
  by (simp add: min_def)

lemma save_all_history:
  "memory_getPriceHistory k (save_all calls m) =
     take 24 (rev (entries_for k calls) @ memory_getPriceHistory k m)"
    if "length (memory_getPriceHistory k m) \<le> 24"
  using that
proof (induction calls arbitrary: m)
  case Nil
  then show ?case by (simp add: entries_for_def)
next
  case (Cons c calls)
  obtain token pr now where c: "c = (token, pr, now)" by (cases c)
  let ?m1 = "snd (memory_saveTokenPrice token pr now m)"
  show ?case
  proof (cases "nullish token \<or> nullish pr")
    case True
    then have h1: "memory_getPriceHistory k ?m1 = memory_getPriceHistory k m"
      by (rule memory_save_history_fail)
    have "entries_for k (c # calls) = entries_for k calls"
      using True c by (auto simp: entries_for_def)
    then show ?thesis using Cons.IH [of ?m1] Cons.prems h1 c by simp
  next
    case False
    then have h1: "memory_getPriceHistory k ?m1 =
        (if k = getp token ''poolAddress''
         then take 24 (new_entry pr now # memory_getPriceHistory k m)
         else memory_getPriceHistory k m)"
      using memory_save_history by simp
    then have len: "length (memory_getPriceHistory k ?m1) \<le> 24"
      using Cons.prems by simp
    show ?thesis
    proof (cases "k = getp token ''poolAddress''")
      case True
      have "entries_for k (c # calls) = new_entry pr now # entries_for k calls"
        using True False c by (simp add: entries_for_def)
      then have e: "rev (entries_for k (c # calls)) = rev (entries_for k calls) @ [new_entry pr now]"
        by simp
      have h2: "memory_getPriceHistory k ?m1 =
                  take 24 (new_entry pr now # memory_getPriceHistory k m)"
        using memory_save_history [OF _ _, of token pr k now m] True \<open>\<not> (nullish token \<or> nullish pr)\<close>
        by (simp del: take_Cons_numeral)
      have "memory_getPriceHistory k (save_all (c # calls) m) =
              memory_getPriceHistory k (save_all calls ?m1)"
        using c by simp
      also have "\<dots> = take 24 (rev (entries_for k calls) @ memory_getPriceHistory k ?m1)"
        by (rule Cons.IH [OF len])
      also have "\<dots> = take 24 (rev (entries_for k calls) @
                   take 24 (new_entry pr now # memory_getPriceHistory k m))"
        by (simp only: h2)
      also have "\<dots> = take 24 (rev (entries_for k calls) @
                   new_entry pr now # memory_getPriceHistory k m)"
        by (rule take_append_take)
      also have "\<dots> = take 24 (rev (entries_for k (c # calls)) @ memory_getPriceHistory k m)"
        by (simp only: e append_assoc append_Cons append_Nil)
      finally show ?thesis .
    next
      case False
      have "entries_for k (c # calls) = entries_for k calls"
        using False c by (auto simp: entries_for_def)
      then show ?thesis using Cons.IH [OF len] h1 False c by simp
    qed
  qed
qed

lemma save_all_length:
  assumes "length (memory_getPriceHistory k m) \<le> 24"
  shows "length (memory_getPriceHistory k (save_all calls m)) \<le> 24"
  by (simp add: save_all_history [OF assms])

lemma entries_for_times:
  "map h_updated_at (entries_for k calls) =
     map (\<lambda>(token, pr, now). now)
       (filter (\<lambda>(token, pr, now). getp token ''poolAddress'' = k \<and>
                  \<not> nullish token \<and> \<not> nullish pr) calls)"
  by (induction calls) (auto simp: entries_for_def new_entry_def)

lemma newest_first_sorted:
  assumes "sorted (map (\<lambda>(token, pr, now). now) calls)"
  shows "sorted (rev (map h_updated_at (take 24 (rev (entries_for k calls)))))"
proof -
  have "sorted (map h_updated_at (entries_for k calls))"
    unfolding entries_for_times using assms by (rule sorted_filter)
  then have "sorted (drop (length (entries_for k calls) - 24)
                (map h_updated_at (entries_for k calls)))"
    by (rule sorted_wrt_drop)
  moreover have "rev (map h_updated_at (take 24 (rev (entries_for k calls)))) =
      drop (length (entries_for k calls) - 24) (map h_updated_at (entries_for k calls))"
    by (simp add: take_map [symmetric] rev_map [symmetric] take_rev drop_map del: take_map)
  ultimately show ?thesis by simp
qed

lemma newest_append_latest:
  assumes "\<forall>r \<in> set rows. updated_at r \<le> updated_at row"
  shows "newest (rows @ [row]) = Some row"
  using assms by (induction rows) (auto split: option.splits)

lemma truthy_string:
  "truthy v \<and> typeof v = ''string'' \<longleftrightarrow> (\<exists>s. v = JStr s \<and> s \<noteq> [])"
  by (cases v) auto

lemma truthy_number:
  "truthy v \<and> typeof v = ''number'' \<longleftrightarrow> (\<exists>x. v = JNum x \<and> x \<noteq> 0)"
  by (cases v) auto

lemma getp_defined_object: "getp v k \<noteq> JUndefined \<Longrightarrow> truthy v \<and> \<not> nullish v"
  by (cases v) (auto simp: nullish_def)

lemma validate_token_iff:
  "storage_validateData d ''token'' \<longleftrightarrow>
     (\<exists>a. getp d ''address'' = JStr a \<and> a \<noteq> []) \<and>
     (\<exists>p. getp d ''poolAddress'' = JStr p \<and> p \<noteq> []) \<and>
     (\<exists>t. getp d ''ticker'' = JStr t \<and> t \<noteq> [])"
proof -
  have "storage_validateData d ''token'' \<longleftrightarrow>
      truthy d \<and>
      (truthy (getp d ''address'') \<and> typeof (getp d ''address'') = ''string'') \<and>
      (truthy (getp d ''poolAddress'') \<and> typeof (getp d ''poolAddress'') = ''string'') \<and>
      (truthy (getp d ''ticker'') \<and> typeof (getp d ''ticker'') = ''string'')"
    by (simp add: storage_validateData_def)
  also have "\<dots> \<longleftrightarrow>
     (\<exists>a. getp d ''address'' = JStr a \<and> a \<noteq> []) \<and>
     (\<exists>p. getp d ''poolAddress'' = JStr p \<and> p \<noteq> []) \<and>
     (\<exists>t. getp d ''ticker'' = JStr t \<and> t \<noteq> [])"
    unfolding truthy_string using getp_defined_object [of d "''address''"] by auto
  finally show ?thesis .
qed

lemma validate_price_iff:
  "storage_validateData d ''price'' \<longleftrightarrow>
     (\<exists>x. getp d ''price'' = JNum x \<and> x \<noteq> 0) \<and>
     (\<exists>x. getp d ''marketCap'' = JNum x \<and> x \<noteq> 0) \<and>
     (\<exists>x. getp d ''liquidity'' = JNum x \<and> x \<noteq> 0)"
proof -
  have "storage_validateData d ''price'' \<longleftrightarrow>
      truthy d \<and>
      (truthy (getp d ''price'') \<and> typeof (getp d ''price'') = ''number'') \<and>
      (truthy (getp d ''marketCap'') \<and> typeof (getp d ''marketCap'') = ''number'') \<and>
      (truthy (getp d ''liquidity'') \<and> typeof (getp d ''liquidity'') = ''number'')"
    by (simp add: storage_validateData_def)
  also have "\<dots> \<longleftrightarrow>
     (\<exists>x. getp d ''price'' = JNum x \<and> x \<noteq> 0) \<and>
     (\<exists>x. getp d ''marketCap'' = JNum x \<and> x \<noteq> 0) \<and>
     (\<exists>x. getp d ''liquidity'' = JNum x \<and> x \<noteq> 0)"
    unfolding truthy_number using getp_defined_object [of d "''price''"] by auto
  finally show ?thesis .
qed

lemma validate_config_iff:
  "storage_validateData (JObject [(''key'', key), (''value'', val)]) ''config'' \<longleftrightarrow>
     (\<exists>s. key = JStr s \<and> s \<noteq> []) \<and> val \<noteq> JUndefined"
  using truthy_string [of key] by (auto simp: storage_validateData_def)

lemma stale_local:
  "map_of (prices m) k = Some d \<Longrightarrow> p_updated_at d < now - 30000 \<Longrightarrow>
   memory_getTokenPrice k now m = None"
  by (simp add: memory_getTokenPrice_def)

lemma stale_remote:
  "newest (filter (\<lambda>r. pool_address r = k) (token_prices s)) = Some row \<Longrightarrow>
   updated_at row < now - 30000 \<Longrightarrow> supabase_getTokenPrice k now s = None"
  by (simp add: supabase_getTokenPrice_def)

lemma local_save_then_read:
  assumes "\<not> nullish token"
  shows "memory_getTokenPrice (getp token ''poolAddress'') now
           (snd (memory_saveTokenPrice token pr t0 m)) =
         (if t0 < now - 30000 then None else Some pr)"
  using assms
  by (auto simp: memory_getTokenPrice_def memory_saveTokenPrice_def Let_def)

lemma remote_save_then_read:
  assumes "storage_validateData token ''token''" "storage_validateData pr ''price''"
    "reachable s"
    "\<forall>r \<in> set (token_prices s). pool_address r = getp token ''poolAddress'' \<longrightarrow>
       updated_at r \<le> t0"
  shows "supabase_getTokenPrice (getp token ''poolAddress'') now
           (snd (supabase_saveTokenPrice token pr t0 s)) =
         (if t0 < now - 30000 then None else Some (price_columns pr))"
proof -
  obtain a p t where tk: "getp token ''address'' = JStr a" "a \<noteq> []"
      "getp token ''poolAddress'' = JStr p" "p \<noteq> []" "getp token ''ticker'' = JStr t" "t \<noteq> []"
    using assms(1) unfolding validate_token_iff by blast
  obtain x y z where pk: "getp pr ''price'' = JNum x" "getp pr ''marketCap'' = JNum y"
      "getp pr ''liquidity'' = JNum z"
    using assms(2) unfolding validate_price_iff by blast
  have nn: "\<not> nullish token" "\<not> nullish pr"
    using getp_defined_object [of token "''address''"] getp_defined_object [of pr "''price''"]
      tk pk by simp_all
  let ?row = "\<lparr> token_address = JStr a, pool_address = JStr p, ticker = JStr t,
                 name = to_column (getp token ''name''), price = JNum x, market_cap = JNum y,
                 liquidity = JNum z, volume_24h = to_column (getp pr ''volume24h''),
                 dex_id = to_column (getp pr ''dexId''), updated_at = t0 \<rparr>"
  have saved: "snd (supabase_saveTokenPrice token pr t0 s) =
      s\<lparr>token_prices := token_prices s @ [?row]\<rparr>"
    using nn assms(3) tk pk by (simp add: supabase_saveTokenPrice_def Let_def)
  have "newest (filter (\<lambda>r. pool_address r = JStr p) (token_prices s) @ [?row]) = Some ?row"
    by (rule newest_append_latest) (use assms(4) tk in auto)
  then show ?thesis
    using saved assms(3) tk pk
    by (simp add: supabase_getTokenPrice_def price_columns_def)
qed

section \<open>Properties of the stores\<close>

subsection \<open>The history series\<close>

text \<open>
  Claim C4. A successful \<open>saveTokenPrice\<close> on the local store leaves the pool's series as
  its first 24 entries after the new entry has been put in front, whatever its length
  was. Over any sequence of calls a series that had at most 24 entries keeps at most
  24; starting from the empty store, the series of a pool is the entries saved for it,
  latest call first, cut to 24, and when the clock readings of the calls do not decrease
  its timestamps do not increase from front to back.
\<close>

theorem history_bounded_newest_first:
  "(\<not> nullish token \<and> \<not> nullish pr \<longrightarrow>
      memory_getPriceHistory (getp token ''poolAddress'')
          (snd (memory_saveTokenPrice token pr now m)) =
        take 24 (new_entry pr now # memory_getPriceHistory (getp token ''poolAddress'') m)) \<and>
   (length (memory_getPriceHistory k m) \<le> 24 \<longrightarrow>
      length (memory_getPriceHistory k (save_all calls m)) \<le> 24) \<and>
   length (memory_getPriceHistory k (save_all calls memory_constructor)) \<le> 24 \<and>
   memory_getPriceHistory k (save_all calls memory_constructor) =
     take 24 (rev (entries_for k calls)) \<and>
   (sorted (map (\<lambda>(token, pr, now). now) calls) \<longrightarrow>
      sorted (rev (map h_updated_at
        (memory_getPriceHistory k (save_all calls memory_constructor)))))"
proof -
  have empty: "memory_getPriceHistory k memory_constructor = []"
    by (simp add: memory_getPriceHistory_def memory_constructor_def)
  have start: "length (memory_getPriceHistory k memory_constructor) \<le> 24"
    by (simp add: empty)
  have series: "memory_getPriceHistory k (save_all calls memory_constructor) =
      take 24 (rev (entries_for k calls))"
    using save_all_history [OF start, of calls] by (simp only: empty append_Nil2)
  show ?thesis
  proof (intro conjI impI)
    assume "\<not> nullish token \<and> \<not> nullish pr"
    then show "memory_getPriceHistory (getp token ''poolAddress'')
          (snd (memory_saveTokenPrice token pr now m)) =
        take 24 (new_entry pr now # memory_getPriceHistory (getp token ''poolAddress'') m)"
      using memory_save_history [of token pr "getp token ''poolAddress''" now m]
      by (simp del: take_Cons_numeral)
  next
    assume "length (memory_getPriceHistory k m) \<le> 24"
    then show "length (memory_getPriceHistory k (save_all calls m)) \<le> 24"
      by (rule save_all_length)
  next
    show "length (memory_getPriceHistory k (save_all calls memory_constructor)) \<le> 24"
      by (rule save_all_length [OF start])
  next
    show "memory_getPriceHistory k (save_all calls memory_constructor) =
      take 24 (rev (entries_for k calls))"
      by (rule series)
  next
    assume "sorted (map (\<lambda>(token, pr, now). now) calls)"
    then show "sorted (rev (map h_updated_at
        (memory_getPriceHistory k (save_all calls memory_constructor))))"
      unfolding series by (rule newest_first_sorted)
  qed
qed

theorem history_bounded_newest_first_witness:
  "memory_getPriceHistory (JStr ''P1'')
     (snd (memory_saveTokenPrice (JObject [(''poolAddress'', JStr ''P1'')])
        (JObject [(''price'', JNum 2)]) 2000
        (memory_constructor\<lparr>history :=
           [(JStr ''P1'', replicate 24 \<lparr> h_price = JNum 1, h_updated_at = 1000 \<rparr>)]\<rparr>)))
   = \<lparr> h_price = JNum 2, h_updated_at = 2000 \<rparr> #
       replicate 23 \<lparr> h_price = JNum 1, h_updated_at = 1000 \<rparr> \<and>
   length (memory_getPriceHistory (JStr ''P1'')
     (save_all [(JObject [(''poolAddress'', JStr ''P1'')], JObject [(''price'', JNum 2)], 2000)]
        (memory_constructor\<lparr>history :=
           [(JStr ''P1'', replicate 24 \<lparr> h_price = JNum 1, h_updated_at = 1000 \<rparr>)]\<rparr>)))
     \<le> 24 \<and>
   memory_getPriceHistory (JStr ''P1'')
     (save_all [(JObject [(''poolAddress'', JStr ''P1'')], JObject [(''price'', JNum 1)], 1000),
                (JObject [(''poolAddress'', JStr ''P1'')], JObject [(''price'', JNum 2)], 2000)]
        memory_constructor)
   = [\<lparr> h_price = JNum 2, h_updated_at = 2000 \<rparr>, \<lparr> h_price = JNum 1, h_updated_at = 1000 \<rparr>] \<and>
   sorted (rev (map h_updated_at (memory_getPriceHistory (JStr ''P1'')
     (save_all [(JObject [(''poolAddress'', JStr ''P1'')], JObject [(''price'', JNum 1)], 1000),
                (JObject [(''poolAddress'', JStr ''P1'')], JObject [(''price'', JNum 2)], 2000)]
        memory_constructor))))"
proof -
  let ?tok = "JObject [(''poolAddress'', JStr ''P1'')]"
  let ?old = "\<lparr> h_price = JNum 1, h_updated_at = 1000 \<rparr>"
  let ?full = "memory_constructor\<lparr>history := [(JStr ''P1'', replicate 24 ?old)]\<rparr>"
  let ?calls = "[(?tok, JObject [(''price'', JNum 1)], 1000 :: int),
                 (?tok, JObject [(''price'', JNum 2)], 2000)]"
  have len: "length (memory_getPriceHistory (JStr ''P1'') ?full) \<le> 24"
    by (simp add: memory_getPriceHistory_def)
  have srt: "sorted (map (\<lambda>(token, pr, now). now) ?calls)"
    by simp
  have a: "memory_getPriceHistory (JStr ''P1'')
       (snd (memory_saveTokenPrice ?tok (JObject [(''price'', JNum 2)]) 2000 ?full)) =
     take 24 (new_entry (JObject [(''price'', JNum 2)]) 2000 #
       memory_getPriceHistory (JStr ''P1'') ?full)"
    using history_bounded_newest_first [of ?tok "JObject [(''price'', JNum 2)]" 2000 ?full]
    by (simp add: nullish_def del: take_Cons_numeral)
  have b: "length (memory_getPriceHistory (JStr ''P1'')
       (save_all [(?tok, JObject [(''price'', JNum 2)], 2000)] ?full)) \<le> 24"
    using history_bounded_newest_first [of ?tok "JObject [(''price'', JNum 2)]" 2000 ?full
       "JStr ''P1''" "[(?tok, JObject [(''price'', JNum 2)], 2000)]"] len
    by blast
  have c: "memory_getPriceHistory (JStr ''P1'') (save_all ?calls memory_constructor) =
       take 24 (rev (entries_for (JStr ''P1'') ?calls))"
    and d: "sorted (rev (map h_updated_at
       (memory_getPriceHistory (JStr ''P1'') (save_all ?calls memory_constructor))))"
    using history_bounded_newest_first [of ?tok "JObject [(''price'', JNum 2)]" 2000 ?full
       "JStr ''P1''" ?calls] srt
    by blast+
  show ?thesis
    using a b c d
    by (simp add: new_entry_def entries_for_def nullish_def memory_getPriceHistory_def)
qed

subsection \<open>Freshness\<close>

text \<open>
  Claim C3. On both read paths \<open>getTokenPrice\<close> returns \<open>null\<close> for a pool whose stored
  record (in the remote table: its newest row) is more than 30 seconds old, although
  the record is there. A price saved at \<open>t0\<close> is read back ten seconds later and is
  absent 31 seconds later: the local store gives back the price payload itself, the
  remote client the five price columns, which are the payload's fields when the volume
  and the exchange id are values JSON carries. The remote part is for a payload that
  passed the facade's validation, a database in reach, and a pool with no row as new
  as \<open>t0\<close>.
\<close>

theorem stale_price_is_absent:
  "(map_of (prices m) k = Some d \<and> p_updated_at d < now - 30 * 1000 \<longrightarrow>
      memory_getTokenPrice k now m = None) \<and>
   (newest (filter (\<lambda>r. pool_address r = k) (token_prices s)) = Some row \<and>
    updated_at row < now - 30 * 1000 \<longrightarrow>
      supabase_getTokenPrice k now s = None) \<and>
   (\<not> nullish token \<longrightarrow>
      memory_getTokenPrice (getp token ''poolAddress'') (saved + 10 * 1000)
          (snd (memory_saveTokenPrice token pr saved m)) = Some pr \<and>
      memory_getTokenPrice (getp token ''poolAddress'') (saved + 31 * 1000)
          (snd (memory_saveTokenPrice token pr saved m)) = None) \<and>
   (storage_validateData token ''token'' \<and> storage_validateData pr ''price'' \<and> reachable s \<and>
    (\<forall>r \<in> set (token_prices s).
        pool_address r = getp token ''poolAddress'' \<longrightarrow> updated_at r < saved) \<longrightarrow>
      supabase_getTokenPrice (getp token ''poolAddress'') (saved + 10 * 1000)
          (snd (supabase_saveTokenPrice token pr saved s)) = Some (price_columns pr) \<and>
      supabase_getTokenPrice (getp token ''poolAddress'') (saved + 31 * 1000)
          (snd (supabase_saveTokenPrice token pr saved s)) = None \<and>
      (to_column (getp pr ''volume24h'') = getp pr ''volume24h'' \<and>
       to_column (getp pr ''dexId'') = getp pr ''dexId'' \<longrightarrow>
         price_columns pr =
           JObject [(''price'', getp pr ''price''), (''marketCap'', getp pr ''marketCap''),
                    (''liquidity'', getp pr ''liquidity''),
                    (''volume24h'', getp pr ''volume24h''), (''dexId'', getp pr ''dexId'')]))"
proof (intro conjI impI)
  assume "map_of (prices m) k = Some d \<and> p_updated_at d < now - 30 * 1000"
  then show "memory_getTokenPrice k now m = None"
    using stale_local [of m k d now] by simp
next
  assume "newest (filter (\<lambda>r. pool_address r = k) (token_prices s)) = Some row \<and>
    updated_at row < now - 30 * 1000"
  then show "supabase_getTokenPrice k now s = None"
    using stale_remote [of k s row now] by simp
next
  assume "\<not> nullish token"
  then show "memory_getTokenPrice (getp token ''poolAddress'') (saved + 10 * 1000)
          (snd (memory_saveTokenPrice token pr saved m)) = Some pr"
    by (simp add: local_save_then_read)
next
  assume "\<not> nullish token"
  then show "memory_getTokenPrice (getp token ''poolAddress'') (saved + 31 * 1000)
          (snd (memory_saveTokenPrice token pr saved m)) = None"
    by (simp add: local_save_then_read)
next
  assume a: "storage_validateData token ''token'' \<and> storage_validateData pr ''price'' \<and>
    reachable s \<and>
    (\<forall>r \<in> set (token_prices s).
        pool_address r = getp token ''poolAddress'' \<longrightarrow> updated_at r < saved)"
  then have older: "\<forall>r \<in> set (token_prices s).
        pool_address r = getp token ''poolAddress'' \<longrightarrow> updated_at r \<le> saved"
    by auto
  show "supabase_getTokenPrice (getp token ''poolAddress'') (saved + 10 * 1000)
          (snd (supabase_saveTokenPrice token pr saved s)) = Some (price_columns pr)"
    using a remote_save_then_read [OF _ _ _ older, of pr "saved + 10 * 1000"] by simp
  show "supabase_getTokenPrice (getp token ''poolAddress'') (saved + 31 * 1000)
          (snd (supabase_saveTokenPrice token pr saved s)) = None"
    using a remote_save_then_read [OF _ _ _ older, of pr "saved + 31 * 1000"] by simp
  assume "to_column (getp pr ''volume24h'') = getp pr ''volume24h'' \<and>
       to_column (getp pr ''dexId'') = getp pr ''dexId''"
  moreover obtain x y z where "getp pr ''price'' = JNum x" "getp pr ''marketCap'' = JNum y"
      "getp pr ''liquidity'' = JNum z"
    using a unfolding validate_price_iff by blast
  ultimately show "price_columns pr =
           JObject [(''price'', getp pr ''price''), (''marketCap'', getp pr ''marketCap''),
                    (''liquidity'', getp pr ''liquidity''),
                    (''volume24h'', getp pr ''volume24h''), (''dexId'', getp pr ''dexId'')]"
    by (simp add: price_columns_def)
qed

theorem stale_price_is_absent_witness:
  "memory_getTokenPrice (JStr ''P1'') 41000
     (memory_constructor\<lparr>prices := [(JStr ''P1'',
        \<lparr> p_token = JObject [(''address'', JStr ''0xA''), (''poolAddress'', JStr ''P1''),
                              (''ticker'', JStr ''TKN'')],
          p_price = JObject [(''price'', JNum 2), (''marketCap'', JNum 500),
                              (''liquidity'', JNum 30), (''volume24h'', JNum 7),
                              (''dexId'', JStr ''uni'')],
          p_updated_at = 10000 \<rparr>)]\<rparr>) = None \<and>
   memory_getTokenPrice (JStr ''P1'') (10000 + 10 * 1000)
     (snd (memory_saveTokenPrice
        (JObject [(''address'', JStr ''0xA''), (''poolAddress'', JStr ''P1''),
                  (''ticker'', JStr ''TKN'')])
        (JObject [(''price'', JNum 2), (''marketCap'', JNum 500), (''liquidity'', JNum 30),
                  (''volume24h'', JNum 7), (''dexId'', JStr ''uni'')])
        10000 memory_constructor))
     = Some (JObject [(''price'', JNum 2), (''marketCap'', JNum 500), (''liquidity'', JNum 30),
                      (''volume24h'', JNum 7), (''dexId'', JStr ''uni'')]) \<and>
   supabase_getTokenPrice (JStr ''P1'') (10000 + 10 * 1000)
     (snd (supabase_saveTokenPrice
        (JObject [(''address'', JStr ''0xA''), (''poolAddress'', JStr ''P1''),
                  (''ticker'', JStr ''TKN'')])
        (JObject [(''price'', JNum 2), (''marketCap'', JNum 500), (''liquidity'', JNum 30),
                  (''volume24h'', JNum 7), (''dexId'', JStr ''uni'')])
        10000
        \<lparr> initialized = True, available = True, reachable = True, token_prices = [],
          bot_config = [] \<rparr>))
     = Some (JObject [(''price'', JNum 2), (''marketCap'', JNum 500), (''liquidity'', JNum 30),
                      (''volume24h'', JNum 7), (''dexId'', JStr ''uni'')]) \<and>
   supabase_getTokenPrice (JStr ''P1'') (10000 + 31 * 1000)
     (snd (supabase_saveTokenPrice
        (JObject [(''address'', JStr ''0xA''), (''poolAddress'', JStr ''P1''),
                  (''ticker'', JStr ''TKN'')])
        (JObject [(''price'', JNum 2), (''marketCap'', JNum 500), (''liquidity'', JNum 30),
                  (''volume24h'', JNum 7), (''dexId'', JStr ''uni'')])
        10000
        \<lparr> initialized = True, available = True, reachable = True, token_prices = [],
          bot_config = [] \<rparr>))
     = None"
proof -
  let ?tok = "JObject [(''address'', JStr ''0xA''), (''poolAddress'', JStr ''P1''),
                       (''ticker'', JStr ''TKN'')]"
  let ?pr = "JObject [(''price'', JNum 2), (''marketCap'', JNum 500), (''liquidity'', JNum 30),
                      (''volume24h'', JNum 7), (''dexId'', JStr ''uni'')]"
  let ?entry = "\<lparr> p_token = ?tok, p_price = ?pr, p_updated_at = 10000 \<rparr>"
  let ?m = "memory_constructor\<lparr>prices := [(JStr ''P1'', ?entry)]\<rparr>"
  let ?s = "\<lparr> initialized = True, available = True, reachable = True, token_prices = [],
              bot_config = [] \<rparr>"
  have valid: "storage_validateData ?tok ''token''" "storage_validateData ?pr ''price''"
    by (simp_all add: storage_validateData_def)
  note inst = stale_price_is_absent [where m = ?m and k = "JStr ''P1''" and d = ?entry
      and now = 41000 and s = ?s and token = ?tok and saved = 10000 and pr = ?pr]
  note inst' = stale_price_is_absent [where m = memory_constructor and k = "JStr ''P1''"
      and d = ?entry and now = 41000 and s = ?s and token = ?tok and saved = 10000 and pr = ?pr]
  have stale: "memory_getTokenPrice (JStr ''P1'') 41000 ?m = None"
    using inst by simp
  have fresh: "memory_getTokenPrice (JStr ''P1'') (10000 + 10 * 1000)
      (snd (memory_saveTokenPrice ?tok ?pr 10000 memory_constructor)) = Some ?pr"
    using inst' by (simp add: nullish_def)
  have remote: "supabase_getTokenPrice (JStr ''P1'') (10000 + 10 * 1000)
      (snd (supabase_saveTokenPrice ?tok ?pr 10000 ?s)) = Some (price_columns ?pr)"
    "supabase_getTokenPrice (JStr ''P1'') (10000 + 31 * 1000)
      (snd (supabase_saveTokenPrice ?tok ?pr 10000 ?s)) = None"
    using inst' valid by simp_all
  show ?thesis
    using stale fresh remote by (simp add: price_columns_def)
qed

section \<open>Reasoning about the synchronization queue\<close>

lemma processSyncQueue_locked:
  "type \<in> syncLock svc \<Longrightarrow> processSyncQueue exec type (svc, st) = (svc, st)"
  by (simp add: processSyncQueue_def acquireLock_def)

lemma processSyncQueue_free:
  "type \<notin> syncLock svc \<Longrightarrow>
   processSyncQueue exec type (svc, st) =
     (svc\<lparr>syncQueue := (syncQueue svc)(type \<mapsto> []),
          lastSync := (lastSync svc)(type \<mapsto> clock st)\<rparr>,
      run_operations exec (case syncQueue svc type of None \<Rightarrow> [] | Some ops \<Rightarrow> ops) st)"
  by (simp add: processSyncQueue_def acquireLock_def take_snapshot_def releaseLock_def Let_def)

lemma processSyncQueue_syncLock:
  "syncLock (fst (processSyncQueue exec type (svc, st))) = syncLock svc"
  by (cases "type \<in> syncLock svc") (simp_all add: processSyncQueue_locked processSyncQueue_free)

lemma queueSync_cases:
  "queueSync exec type operation (svc, st) =
     (let bucket = (case syncQueue svc type of None \<Rightarrow> [] | Some ops \<Rightarrow> ops) in
      if clock st - (case lastSync svc type of None \<Rightarrow> 0 | Some t \<Rightarrow> t) > syncInterval svc \<and>
         type \<notin> syncLock svc
      then (svc\<lparr>syncQueue := (syncQueue svc)(type \<mapsto> []),
                lastSync := (lastSync svc)(type \<mapsto> clock st)\<rparr>,
            run_operations exec (bucket @ [operation]) st)
      else (svc\<lparr>syncQueue := (syncQueue svc)(type \<mapsto> bucket @ [operation])\<rparr>, st))"
  by (cases "type \<in> syncLock svc")
     (simp_all add: queueSync_def Let_def processSyncQueue_locked processSyncQueue_free)

lemma queueSync_locked:
  "type \<in> syncLock svc \<Longrightarrow>
   queueSync exec type operation (svc, st) =
     (svc\<lparr>syncQueue := (syncQueue svc)(type \<mapsto>
        (case syncQueue svc type of None \<Rightarrow> [] | Some ops \<Rightarrow> ops) @ [operation])\<rparr>, st)"
  by (simp add: queueSync_cases Let_def)




lemma validated_not_nullish:
  "storage_validateData d type \<Longrightarrow> \<not> nullish d"
  by (cases d) (simp_all add: storage_validateData_def nullish_def)

lemma saveTokenPrice_rejects:
  "\<not> (storage_validateData token ''token'' \<and> storage_validateData pr ''price'') \<Longrightarrow>
   saveTokenPrice token pr (svc, st) = (Inl InvalidPriceData, svc, st)"
  by (auto simp: saveTokenPrice_def)

lemma saveTokenPrice_accepts:
  assumes "storage_validateData token ''token''" "storage_validateData pr ''price''"
  shows "\<exists>r. fst (saveTokenPrice token pr (svc, st)) = Inr r"
proof (cases "storage svc")
  case Supabase
  with assms show ?thesis
    by (auto simp: saveTokenPrice_def storage_save_def split: prod.splits)
next
  case Memory
  have "\<not> nullish token" "\<not> nullish pr"
    using assms validated_not_nullish by blast+
  then have "\<exists>r m'. memory_saveTokenPrice token pr (clock st) (memoryStorage st) = (Inr r, m')"
    by (simp add: memory_saveTokenPrice_def Let_def)
  with Memory assms show ?thesis
    by (auto simp: saveTokenPrice_def storage_save_def split: prod.splits)
qed

lemma updateConfig_rejects:
  "\<not> storage_validateData (JObject [(''key'', key), (''value'', val)]) ''config'' \<Longrightarrow>
   updateConfig key val (svc, st) = (Inl InvalidConfigData, svc, st)"
  by (simp add: updateConfig_def Let_def)

lemma updateConfig_accepts:
  "storage_validateData (JObject [(''key'', key), (''value'', val)]) ''config'' \<Longrightarrow>
   updateConfig key val (svc, st) =
     (Inr True,
      if useSupabase svc
      then queueSync exec_sync_op ''config'' (SupabaseUpdateConfig key val)
             (svc, st\<lparr>memoryStorage := snd (memory_updateConfig key val (memoryStorage st))\<rparr>)
      else (svc, st\<lparr>memoryStorage := snd (memory_updateConfig key val (memoryStorage st))\<rparr>))"
  by (simp add: updateConfig_def Let_def memory_updateConfig_def)

lemma saveTokenPrice_remote:
  assumes "storage_validateData token ''token''" "storage_validateData pr ''price''"
    "useSupabase svc" "storage svc = Supabase"
  shows "saveTokenPrice token pr (svc, st) =
     (Inr JNull,
      queueSync exec_sync_op ''price'' (MemorySaveTokenPrice token pr)
        (svc, st\<lparr>supabase := snd (supabase_saveTokenPrice token pr (clock st) (supabase st))\<rparr>))"
  using assms
  by (auto simp: saveTokenPrice_def storage_save_def supabase_saveTokenPrice_def Let_def
      split: prod.splits)

lemma queueSync_twice_locked:
  assumes "type \<in> syncLock svc"
  shows "queueSync exec type b (queueSync exec type a (svc, st)) =
     (svc\<lparr>syncQueue := (syncQueue svc)(type \<mapsto>
        (case syncQueue svc type of None \<Rightarrow> [] | Some ops \<Rightarrow> ops) @ [a, b])\<rparr>, st)"
  using assms by (simp add: queueSync_locked)

lemma queueSync_other_bucket:
  "type' \<noteq> type \<Longrightarrow>
   syncQueue (fst (queueSync exec type' c (svc, st))) type = syncQueue svc type"
  by (simp add: queueSync_cases Let_def)

lemma processSyncQueue_other_bucket:
  "type' \<noteq> type \<Longrightarrow>
   syncQueue (fst (processSyncQueue exec type' (svc, st))) type = syncQueue svc type"
  by (cases "type' \<in> syncLock svc")
     (simp_all add: processSyncQueue_locked processSyncQueue_free)

section \<open>Properties of the storage facade\<close>

subsection \<open>Switching the mode\<close>

text \<open>
  Claim C7. While the remote store reports that it is not available, \<open>setStorageMode\<close>
  asked for the remote mode returns with the facade and the stores as they were; asking
  again changes nothing either, and a facade that is in local mode stays in local mode
  whatever mode is asked for.
\<close>

theorem refused_switch_keeps_mode:
  "\<not> isSupabaseAvailable st \<longrightarrow>
     setStorageMode True (svc, st) = (svc, st) \<and>
     setStorageMode True (setStorageMode True (svc, st)) = (svc, st) \<and>
     (\<not> useSupabase svc \<longrightarrow> \<not> useSupabase (fst (setStorageMode mode (svc, st))))"
  by (simp add: setStorageMode_def)

theorem refused_switch_keeps_mode_witness:
  "setStorageMode True ((storage_constructor :: sync_op storage_service)\<lparr>useSupabase := False\<rparr>,
      \<lparr> clock = 0,
        supabase = \<lparr> initialized = False, available = False, reachable = False,
                     token_prices = [], bot_config = [] \<rparr>,
        memoryStorage = memory_constructor \<rparr>)
   = (storage_constructor\<lparr>useSupabase := False\<rparr>,
      \<lparr> clock = 0,
        supabase = \<lparr> initialized = False, available = False, reachable = False,
                     token_prices = [], bot_config = [] \<rparr>,
        memoryStorage = memory_constructor \<rparr>) \<and>
   getStorageMode (fst (setStorageMode True
     ((storage_constructor :: sync_op storage_service)\<lparr>useSupabase := False\<rparr>,
      \<lparr> clock = 0,
        supabase = \<lparr> initialized = False, available = False, reachable = False,
                     token_prices = [], bot_config = [] \<rparr>,
        memoryStorage = memory_constructor \<rparr>))) = ''memory''"
  using refused_switch_keeps_mode [of
      "\<lparr> clock = 0,
        supabase = \<lparr> initialized = False, available = False, reachable = False,
                     token_prices = [], bot_config = [] \<rparr>,
        memoryStorage = memory_constructor \<rparr>"
      "(storage_constructor :: sync_op storage_service)\<lparr>useSupabase := False\<rparr>" True]
  by (simp add: isSupabaseAvailable_def isAvailable_def getStorageMode_def
      storage_constructor_def)

subsection \<open>Where a write goes\<close>




subsection \<open>Facts about the sample inputs\<close>

lemma sample_valid:
  "storage_validateData (sample_token pool) ''token'' \<longleftrightarrow> pool \<noteq> []"
  "x \<noteq> 0 \<Longrightarrow> storage_validateData (sample_price x) ''price''"
  by (simp_all add: storage_validateData_def sample_token_def sample_price_def)

lemma sample_fields:
  "getp (sample_token pool) ''poolAddress'' = JStr pool"
  "getp (sample_price x) ''price'' = JNum x"
  "\<not> nullish (sample_token pool)"
  "\<not> nullish (sample_price x)"
  by (simp_all add: sample_token_def sample_price_def nullish_def)

subsection \<open>Which store serves a read\<close>

lemma local_mode_after_outage_eval:
  "local_mode_after_outage =
     (storage_constructor\<lparr>useSupabase := False, syncQueue := [''price'' \<mapsto> []],
        lastSync := [''price'' \<mapsto> 10000]\<rparr>,
      \<lparr> clock = 20000,
        supabase = \<lparr> initialized = True, available = True, reachable = False,
          token_prices = [\<lparr> token_address = JStr ''0xA'', pool_address = JStr ''P1'',
            ticker = JStr ''TKN'', name = JStr ''Token'', price = JNum 2,
            market_cap = JNum 500, liquidity = JNum 30, volume_24h = JNum 7,
            dex_id = JStr ''uni'', updated_at = 10000 \<rparr>],
          bot_config = [] \<rparr>,
        memoryStorage = memory_constructor\<lparr>
          prices := [(JStr ''P1'', \<lparr> p_token = sample_token ''P1'', p_price = sample_price 2,
                                    p_updated_at = 10000 \<rparr>)],
          history := [(JStr ''P1'', [\<lparr> h_price = JNum 2, h_updated_at = 10000 \<rparr>])]\<rparr> \<rparr>)"
proof -
  have v: "storage_validateData (sample_token ''P1'') ''token''"
    "storage_validateData (sample_price 2) ''price''"
    by (simp_all add: sample_valid)
  have "snd (saveTokenPrice (sample_token ''P1'') (sample_price 2)
             (storage_constructor, sample_stores 10000)) =
      (storage_constructor\<lparr>syncQueue := [''price'' \<mapsto> []], lastSync := [''price'' \<mapsto> 10000]\<rparr>,
       \<lparr> clock = 10000,
        supabase = \<lparr> initialized = True, available = True, reachable = True,
          token_prices = [\<lparr> token_address = JStr ''0xA'', pool_address = JStr ''P1'',
            ticker = JStr ''TKN'', name = JStr ''Token'', price = JNum 2,
            market_cap = JNum 500, liquidity = JNum 30, volume_24h = JNum 7,
            dex_id = JStr ''uni'', updated_at = 10000 \<rparr>],
          bot_config = [] \<rparr>,
        memoryStorage = memory_constructor\<lparr>
          prices := [(JStr ''P1'', \<lparr> p_token = sample_token ''P1'', p_price = sample_price 2,
                                    p_updated_at = 10000 \<rparr>)],
          history := [(JStr ''P1'', [\<lparr> h_price = JNum 2, h_updated_at = 10000 \<rparr>])]\<rparr> \<rparr>)"
    using saveTokenPrice_remote [OF v, of storage_constructor "sample_stores 10000"]
    by (simp add: storage_constructor_def queueSync_cases Let_def sample_stores_def
        memory_saveTokenPrice_def sample_fields memory_constructor_def
        supabase_saveTokenPrice_def)
       (simp add: sample_token_def sample_price_def)
  then show ?thesis
    by (simp add: local_mode_after_outage_def setStorageMode_def storage_constructor_def)
qed

text \<open>
  Claim C2 has the delegated operations served by the local store once the mode has
  been switched to local. At \<open>local_mode_after_outage\<close> the code does otherwise: the facade
  reports the local mode, \<open>this.storage\<close> is still the remote client,
  \<open>getTokenPrice\<close> and \<open>getPriceHistory\<close> come back empty and \<open>clearHistory\<close> fails
  because the database is out of reach, while the local store holds the price, ten
  seconds old, and its history.
\<close>

theorem local_mode_still_reads_remote:
  "getStorageMode (fst local_mode_after_outage) = ''memory'' \<and>
   storage (fst local_mode_after_outage) = Supabase \<and>
   getTokenPrice (JStr ''P1'') local_mode_after_outage = None \<and>
   memory_getTokenPrice (JStr ''P1'') (clock (snd local_mode_after_outage))
       (memoryStorage (snd local_mode_after_outage)) = Some (sample_price 2) \<and>
   getPriceHistory (JStr ''P1'') None local_mode_after_outage = [] \<and>
   memory_getPriceHistory (JStr ''P1'') (memoryStorage (snd local_mode_after_outage)) =
     [\<lparr> h_price = JNum 2, h_updated_at = 10000 \<rparr>] \<and>
   fst (clearHistory (JStr ''P1'') local_mode_after_outage) = False"
  unfolding local_mode_after_outage_eval
  by (simp add: getStorageMode_def storage_constructor_def getTokenPrice_def
      supabase_getTokenPrice_def memory_getTokenPrice_def getPriceHistory_def
      supabase_getPriceHistory_def memory_getPriceHistory_def clearHistory_def
      supabase_clearHistory_def)

subsection \<open>Operations queued while a flush is in progress\<close>

text \<open>
  Claim C9, as the code has it. While the lock of a type is held, a flush request for
  the type changes nothing, and two operations handed to \<open>queueSync\<close> are appended to
  the bucket, in order, and nothing is run. The bucket of a type is left alone by taking
  and releasing locks and by the queueing and flushing of other types; a flush that
  finds the lock free takes the whole bucket and runs every operation of it in order.
  So once the lock has been released, the next flush of the type runs what was in the
  bucket followed by the two operations. Releasing the lock does not start that flush.
\<close>

theorem queued_during_flush_kept_for_next_flush:
  "(type \<in> syncLock svc \<longrightarrow>
      processSyncQueue exec type (svc, st) = (svc, st) \<and>
      queueSync exec type b (queueSync exec type a (svc, st)) =
        (svc\<lparr>syncQueue := (syncQueue svc)(type \<mapsto>
           (case syncQueue svc type of None \<Rightarrow> [] | Some ops \<Rightarrow> ops) @ [a, b])\<rparr>, st) \<and>
      processSyncQueue exec type
          (releaseLock type (fst (queueSync exec type b (queueSync exec type a (svc, st)))), st') =
        (svc\<lparr>syncLock := syncLock svc - {type},
             syncQueue := (syncQueue svc)(type \<mapsto> []),
             lastSync := (lastSync svc)(type \<mapsto> clock st')\<rparr>,
         run_operations exec
           ((case syncQueue svc type of None \<Rightarrow> [] | Some ops \<Rightarrow> ops) @ [a, b]) st')) \<and>
   (type \<notin> syncLock svc \<longrightarrow>
      processSyncQueue exec type (svc, st) =
        (svc\<lparr>syncQueue := (syncQueue svc)(type \<mapsto> []),
             lastSync := (lastSync svc)(type \<mapsto> clock st)\<rparr>,
         run_operations exec (case syncQueue svc type of None \<Rightarrow> [] | Some ops \<Rightarrow> ops) st)) \<and>
   (type' \<noteq> type \<longrightarrow>
      syncQueue (fst (queueSync exec type' c (svc, st))) type = syncQueue svc type \<and>
      syncQueue (fst (processSyncQueue exec type' (svc, st))) type = syncQueue svc type) \<and>
   syncQueue (releaseLock key svc) = syncQueue svc \<and>
   syncQueue (snd (acquireLock key svc)) = syncQueue svc"
proof (intro conjI impI)
  assume l: "type \<in> syncLock svc"
  show "processSyncQueue exec type (svc, st) = (svc, st)"
    by (rule processSyncQueue_locked [OF l])
  show q: "queueSync exec type b (queueSync exec type a (svc, st)) =
        (svc\<lparr>syncQueue := (syncQueue svc)(type \<mapsto>
           (case syncQueue svc type of None \<Rightarrow> [] | Some ops \<Rightarrow> ops) @ [a, b])\<rparr>, st)"
    by (rule queueSync_twice_locked [OF l])
  show "processSyncQueue exec type
          (releaseLock type (fst (queueSync exec type b (queueSync exec type a (svc, st)))), st') =
        (svc\<lparr>syncLock := syncLock svc - {type},
             syncQueue := (syncQueue svc)(type \<mapsto> []),
             lastSync := (lastSync svc)(type \<mapsto> clock st')\<rparr>,
         run_operations exec
           ((case syncQueue svc type of None \<Rightarrow> [] | Some ops \<Rightarrow> ops) @ [a, b]) st')"
    unfolding q by (simp add: processSyncQueue_free releaseLock_def)
next
  assume "type \<notin> syncLock svc"
  then show "processSyncQueue exec type (svc, st) =
        (svc\<lparr>syncQueue := (syncQueue svc)(type \<mapsto> []),
             lastSync := (lastSync svc)(type \<mapsto> clock st)\<rparr>,
         run_operations exec (case syncQueue svc type of None \<Rightarrow> [] | Some ops \<Rightarrow> ops) st)"
    by (rule processSyncQueue_free)
next
  assume n: "type' \<noteq> type"
  show "syncQueue (fst (queueSync exec type' c (svc, st))) type = syncQueue svc type"
    by (rule queueSync_other_bucket [OF n])
  show "syncQueue (fst (processSyncQueue exec type' (svc, st))) type = syncQueue svc type"
    by (rule processSyncQueue_other_bucket [OF n])
next
  show "syncQueue (releaseLock key svc) = syncQueue svc"
    by (simp add: releaseLock_def)
  show "syncQueue (snd (acquireLock key svc)) = syncQueue svc"
    by (simp add: acquireLock_def)
qed

text \<open>
  The claim as it is written has the two operations applied once the flush in progress
  is over. What stands between the release of the lock and their being run is a later
  call of \<open>queueSync\<close> for the same type, made after the interval has passed; the source
  has no timer that would flush a bucket.
\<close>

lemma flush_in_progress_eval:
  "flush_in_progress =
     (storage_constructor\<lparr>syncLock := {''price''}, syncQueue := [''price'' \<mapsto> []],
        lastSync := [''price'' \<mapsto> 10000]\<rparr>,
      [MemorySaveTokenPrice (sample_token ''P0'') (sample_price 1)])"
  by (simp add: flush_in_progress_def acquireLock_def take_snapshot_def storage_constructor_def)

lemma queued_during_flush_unfold:
  "queued_during_flush =
     (storage_constructor\<lparr>syncQueue := [''price'' \<mapsto>
         [MemorySaveTokenPrice (sample_token ''P1'') (sample_price 2),
          MemorySaveTokenPrice (sample_token ''P2'') (sample_price 3)]],
       lastSync := [''price'' \<mapsto> 10000]\<rparr>,
      run_operations exec_sync_op [MemorySaveTokenPrice (sample_token ''P0'') (sample_price 1)]
        ((sample_stores 10000)\<lparr>supabase :=
           snd (supabase_saveTokenPrice (sample_token ''P2'') (sample_price 3) 10000
             (snd (supabase_saveTokenPrice (sample_token ''P1'') (sample_price 2) 10000
                (supabase (sample_stores 10000)))))\<rparr>))"
proof -
  let ?locked = "(storage_constructor :: sync_op storage_service)\<lparr>syncLock := {''price''},
        syncQueue := [''price'' \<mapsto> []], lastSync := [''price'' \<mapsto> 10000]\<rparr>"
  have v: "storage_validateData (sample_token ''P1'') ''token''"
    "storage_validateData (sample_price 2) ''price''"
    "storage_validateData (sample_token ''P2'') ''token''"
    "storage_validateData (sample_price 3) ''price''"
    by (simp_all add: sample_valid)
  have c: "clock (sample_stores 10000) = 10000"
    by (simp add: sample_stores_def)
  have one: "snd (saveTokenPrice (sample_token ''P1'') (sample_price 2)
                (?locked, sample_stores 10000)) =
      (?locked\<lparr>syncQueue := [''price'' \<mapsto>
           [MemorySaveTokenPrice (sample_token ''P1'') (sample_price 2)]]\<rparr>,
       (sample_stores 10000)\<lparr>supabase :=
          snd (supabase_saveTokenPrice (sample_token ''P1'') (sample_price 2) 10000
                (supabase (sample_stores 10000)))\<rparr>)"
    using saveTokenPrice_remote [OF v(1,2), of ?locked "sample_stores 10000"] c
    by (simp add: storage_constructor_def queueSync_locked)
  have two: "snd (saveTokenPrice (sample_token ''P2'') (sample_price 3)
        (?locked\<lparr>syncQueue := [''price'' \<mapsto>
           [MemorySaveTokenPrice (sample_token ''P1'') (sample_price 2)]]\<rparr>,
         (sample_stores 10000)\<lparr>supabase :=
          snd (supabase_saveTokenPrice (sample_token ''P1'') (sample_price 2) 10000
                (supabase (sample_stores 10000)))\<rparr>)) =
      (?locked\<lparr>syncQueue := [''price'' \<mapsto>
           [MemorySaveTokenPrice (sample_token ''P1'') (sample_price 2),
            MemorySaveTokenPrice (sample_token ''P2'') (sample_price 3)]]\<rparr>,
       (sample_stores 10000)\<lparr>supabase :=
          snd (supabase_saveTokenPrice (sample_token ''P2'') (sample_price 3) 10000
            (snd (supabase_saveTokenPrice (sample_token ''P1'') (sample_price 2) 10000
                (supabase (sample_stores 10000)))))\<rparr>)"
    using saveTokenPrice_remote [OF v(3,4), of
        "?locked\<lparr>syncQueue := [''price'' \<mapsto>
           [MemorySaveTokenPrice (sample_token ''P1'') (sample_price 2)]]\<rparr>"
        "(sample_stores 10000)\<lparr>supabase :=
          snd (supabase_saveTokenPrice (sample_token ''P1'') (sample_price 2) 10000
                (supabase (sample_stores 10000)))\<rparr>"] c
    by (simp add: storage_constructor_def queueSync_locked)
  show ?thesis
    by (simp only: queued_during_flush_def flush_in_progress_eval prod.case one two)
       (simp add: releaseLock_def storage_constructor_def)
qed

lemma queued_during_flush_eval:
  "fst queued_during_flush =
     storage_constructor\<lparr>syncQueue := [''price'' \<mapsto>
         [MemorySaveTokenPrice (sample_token ''P1'') (sample_price 2),
          MemorySaveTokenPrice (sample_token ''P2'') (sample_price 3)]],
       lastSync := [''price'' \<mapsto> 10000]\<rparr>"
  "map fst (prices (memoryStorage (snd queued_during_flush))) = [JStr ''P0'']"
  "map pool_address (token_prices (supabase (snd queued_during_flush))) = [JStr ''P1'', JStr ''P2'']"
  "clock (snd queued_during_flush) = 10000"
  unfolding queued_during_flush_unfold
  by (simp_all add: supabase_saveTokenPrice_def sample_stores_def nullish_def Let_def
      memory_saveTokenPrice_def memory_constructor_def sample_token_def sample_price_def)

lemma queued_during_flush_memory:
  "prices (memoryStorage (snd queued_during_flush)) =
      [(JStr ''P0'', \<lparr> p_token = sample_token ''P0'', p_price = sample_price 1,
                        p_updated_at = 10000 \<rparr>)]"
  "history (memoryStorage (snd queued_during_flush)) =
      [(JStr ''P0'', [\<lparr> h_price = JNum 1, h_updated_at = 10000 \<rparr>])]"
  unfolding queued_during_flush_unfold
  by (simp_all add: sample_stores_def sample_fields Let_def memory_saveTokenPrice_def
      memory_constructor_def)

theorem queued_during_flush_kept_for_next_flush_witness:
  "processSyncQueue exec_sync_op ''price'' (fst flush_in_progress, sample_stores 10000) =
     (fst flush_in_progress, sample_stores 10000) \<and>
   syncQueue (fst (processSyncQueue exec_sync_op ''price''
      (fst queued_during_flush, (snd queued_during_flush)\<lparr>clock := 16000\<rparr>))) ''price'' = Some [] \<and>
   map fst (prices (memoryStorage (snd (processSyncQueue exec_sync_op ''price''
      (fst queued_during_flush, (snd queued_during_flush)\<lparr>clock := 16000\<rparr>))))) =
     [JStr ''P0'', JStr ''P1'', JStr ''P2'']"
proof -
  have held: "''price'' \<in> syncLock (fst flush_in_progress)"
    by (simp add: flush_in_progress_eval)
  have free: "''price'' \<notin> syncLock (fst queued_during_flush)"
    by (simp add: queued_during_flush_eval(1) storage_constructor_def)
  have noop: "processSyncQueue exec_sync_op ''price'' (fst flush_in_progress, sample_stores 10000) =
     (fst flush_in_progress, sample_stores 10000)"
    by (rule queued_during_flush_kept_for_next_flush [where type = "''price''"
          and svc = "fst flush_in_progress" and st = "sample_stores 10000"
          and exec = exec_sync_op,
          THEN conjunct1, rule_format, OF held, THEN conjunct1])
  have flush: "processSyncQueue exec_sync_op ''price''
        (fst queued_during_flush, (snd queued_during_flush)\<lparr>clock := 16000\<rparr>) =
      ((fst queued_during_flush)\<lparr>syncQueue :=
            (syncQueue (fst queued_during_flush))(''price'' \<mapsto> []),
          lastSync := (lastSync (fst queued_during_flush))(''price'' \<mapsto>
            clock ((snd queued_during_flush)\<lparr>clock := 16000\<rparr>))\<rparr>,
       run_operations exec_sync_op
         (case syncQueue (fst queued_during_flush) ''price'' of None \<Rightarrow> [] | Some ops \<Rightarrow> ops)
         ((snd queued_during_flush)\<lparr>clock := 16000\<rparr>))"
    by (rule queued_during_flush_kept_for_next_flush [where type = "''price''"
          and svc = "fst queued_during_flush"
          and st = "(snd queued_during_flush)\<lparr>clock := 16000\<rparr>" and exec = exec_sync_op,
          THEN conjunct2, THEN conjunct1, rule_format, OF free])
  note mem = queued_during_flush_memory
  show ?thesis
    unfolding flush
    by (simp add: noop queued_during_flush_eval(1) mem memory_saveTokenPrice_def Let_def
        sample_fields)
qed

text \<open>
  In \<open>queued_during_flush\<close>, where the flush has released the lock, both prices are in
  the remote table and both
  saves are still in the bucket; the local store has only the price of the flush's own
  snapshot and answers \<open>null\<close> for the two pools. An hour later, after a flush of the
  configuration bucket, that has not changed.
\<close>

theorem queued_during_flush_not_applied:
  "syncLock (fst queued_during_flush) = {} \<and>
   syncQueue (fst queued_during_flush) ''price'' =
     Some [MemorySaveTokenPrice (sample_token ''P1'') (sample_price 2),
           MemorySaveTokenPrice (sample_token ''P2'') (sample_price 3)] \<and>
   map pool_address (token_prices (supabase (snd queued_during_flush))) =
     [JStr ''P1'', JStr ''P2''] \<and>
   map fst (prices (memoryStorage (snd queued_during_flush))) = [JStr ''P0''] \<and>
   memory_getTokenPrice (JStr ''P1'') 10000 (memoryStorage (snd queued_during_flush)) = None \<and>
   memory_getTokenPrice (JStr ''P2'') 10000 (memoryStorage (snd queued_during_flush)) = None \<and>
   map fst (prices (memoryStorage (snd (processSyncQueue exec_sync_op ''config''
      (fst queued_during_flush, (snd queued_during_flush)\<lparr>clock := 3610000\<rparr>))))) =
     [JStr ''P0'']"
proof -
  note mem = queued_during_flush_memory
  have later: "snd (processSyncQueue exec_sync_op ''config''
      (fst queued_during_flush, (snd queued_during_flush)\<lparr>clock := 3610000\<rparr>)) =
      (snd queued_during_flush)\<lparr>clock := 3610000\<rparr>"
    by (simp add: queued_during_flush_eval(1) processSyncQueue_free storage_constructor_def)
  show ?thesis
    unfolding later
    by (simp add: mem memory_getTokenPrice_def queued_during_flush_eval
        storage_constructor_def)
qed

subsection \<open>Release of the guards\<close>

text \<open>
  Claim C10. A call of \<open>processQueue\<close> that finds the queue idle leaves it idle, whether
  the loop ran to the end, stopped at the session timeout or was left by an exception;
  so does a call of \<open>add\<close>. A call of \<open>processSyncQueue\<close> that finds the lock of its type
  free leaves it free, whatever the buffered operations did, and leaves the other locks
  as they were.
\<close>

theorem guards_released:
  "(\<not> processing q \<longrightarrow>
      \<not> processing (fst (snd (processQueue q now h))) \<and>
      \<not> processing (fst (snd (add q d now rnd h)))) \<and>
   (type \<notin> syncLock svc \<longrightarrow>
      type \<notin> syncLock (fst (processSyncQueue exec type (svc, st))) \<and>
      syncLock (fst (processSyncQueue exec type (svc, st))) = syncLock svc)"
  by (auto simp: processQueue_def add_def Let_def processSyncQueue_syncLock split: prod.splits)

theorem guards_released_witness:
  "fst (processQueue
      ((priceQueue :: unit price_queue)\<lparr>handlers := [\<lambda>d h. (Throws JNull, h)],
         queue := [\<lparr> item_id = (100, ''x''), item_data = JObject [], addedAt = 100,
                     retries = 0, lastError = None \<rparr>]\<rparr>) 100 ()) = Some TypeError \<and>
   \<not> processing (fst (snd (processQueue
      ((priceQueue :: unit price_queue)\<lparr>handlers := [\<lambda>d h. (Throws JNull, h)],
         queue := [\<lparr> item_id = (100, ''x''), item_data = JObject [], addedAt = 100,
                     retries = 0, lastError = None \<rparr>]\<rparr>) 100 ()))) \<and>
   run_operations (\<lambda>ok st. (if ok then None else Some StoreTypeError, st\<lparr>clock := clock st + 1\<rparr>))
      [False, True]
      \<lparr> clock = 0,
        supabase = \<lparr> initialized = False, available = False, reachable = False,
                     token_prices = [], bot_config = [] \<rparr>,
        memoryStorage = memory_constructor \<rparr>
    = \<lparr> clock = 2,
        supabase = \<lparr> initialized = False, available = False, reachable = False,
                     token_prices = [], bot_config = [] \<rparr>,
        memoryStorage = memory_constructor \<rparr> \<and>
   ''price'' \<notin> syncLock (fst (processSyncQueue
      (\<lambda>ok st. (if ok then None else Some StoreTypeError, st\<lparr>clock := clock st + 1\<rparr>))
      ''price''
      ((storage_constructor :: bool storage_service)\<lparr>syncQueue := [''price'' \<mapsto> [False, True]]\<rparr>,
       \<lparr> clock = 0,
         supabase = \<lparr> initialized = False, available = False, reachable = False,
                      token_prices = [], bot_config = [] \<rparr>,
         memoryStorage = memory_constructor \<rparr>)))"
proof -
  let ?q = "(priceQueue :: unit price_queue)\<lparr>handlers := [\<lambda>d h. (Throws JNull, h)],
         queue := [\<lparr> item_id = (100, ''x''), item_data = JObject [], addedAt = 100,
                     retries = 0, lastError = None \<rparr>]\<rparr>"
  let ?exec = "\<lambda>ok st. (if ok then None else Some StoreTypeError, st\<lparr>clock := clock st + 1\<rparr>)"
  let ?svc = "(storage_constructor :: bool storage_service)\<lparr>syncQueue := [''price'' \<mapsto> [False, True]]\<rparr>"
  let ?st = "\<lparr> clock = 0,
         supabase = \<lparr> initialized = False, available = False, reachable = False,
                      token_prices = [], bot_config = [] \<rparr>,
         memoryStorage = memory_constructor \<rparr>"
  have exn: "fst (processQueue ?q 100 ()) = Some TypeError"
    by (simp add: processQueue_def priceQueue_def constructor_def drain.simps drain_item_def
        processItem_def handleFailedItem_def Let_def incr_failed_def)
  have idle: "\<not> processing ?q"
    by (simp add: priceQueue_def constructor_def)
  have free: "''price'' \<notin> syncLock ?svc"
    by (simp add: storage_constructor_def)
  have ops: "run_operations ?exec [False, True] ?st = ?st\<lparr>clock := 2\<rparr>"
    by simp
  show ?thesis
    using guards_released [of ?q 100 "()" "JObject []" "''y''" "''price''" ?svc ?exec ?st]
      exn idle free ops
    by simp
qed

subsection \<open>Validation of writes\<close>

text \<open>
  What the check lets through. \<open>saveTokenPrice\<close> accepts a write exactly when the
  token's address, pool address and ticker are non-empty strings and the price, the
  market capitalisation and the liquidity are numbers other than zero and \<open>NaN\<close>;
  \<open>updateConfig\<close> accepts a write exactly when the key is a non-empty string and the
  value is not \<open>undefined\<close>. Any other write fails with the invalid-data error and
  leaves the facade, its synchronization queue and both stores as they were.
\<close>

theorem validated_before_accepted:
  "(storage_validateData token ''token'' \<longleftrightarrow>
      (\<exists>a. getp token ''address'' = JStr a \<and> a \<noteq> []) \<and>
      (\<exists>p. getp token ''poolAddress'' = JStr p \<and> p \<noteq> []) \<and>
      (\<exists>t. getp token ''ticker'' = JStr t \<and> t \<noteq> [])) \<and>
   (storage_validateData pr ''price'' \<longleftrightarrow>
      (\<exists>x. getp pr ''price'' = JNum x \<and> x \<noteq> 0) \<and>
      (\<exists>x. getp pr ''marketCap'' = JNum x \<and> x \<noteq> 0) \<and>
      (\<exists>x. getp pr ''liquidity'' = JNum x \<and> x \<noteq> 0)) \<and>
   (storage_validateData (JObject [(''key'', key), (''value'', val)]) ''config'' \<longleftrightarrow>
      (\<exists>s. key = JStr s \<and> s \<noteq> []) \<and> val \<noteq> JUndefined) \<and>
   (storage_validateData token ''token'' \<and> storage_validateData pr ''price'' \<longrightarrow>
      (\<exists>r. fst (saveTokenPrice token pr (svc, st)) = Inr r)) \<and>
   (\<not> (storage_validateData token ''token'' \<and> storage_validateData pr ''price'') \<longrightarrow>
      saveTokenPrice token pr (svc, st) = (Inl InvalidPriceData, svc, st)) \<and>
   (storage_validateData (JObject [(''key'', key), (''value'', val)]) ''config'' \<longrightarrow>
      fst (updateConfig key val (svc, st)) = Inr True) \<and>
   (\<not> storage_validateData (JObject [(''key'', key), (''value'', val)]) ''config'' \<longrightarrow>
      updateConfig key val (svc, st) = (Inl InvalidConfigData, svc, st))"
  using validate_token_iff [of token] validate_price_iff [of pr] validate_config_iff [of key val]
    saveTokenPrice_accepts [of token pr svc st] saveTokenPrice_rejects [of token pr svc st]
    updateConfig_accepts [of key val svc st] updateConfig_rejects [of key val svc st]
  by (intro conjI impI) simp_all

theorem validated_before_accepted_witness:
  "(\<exists>r. fst (saveTokenPrice
      (JObject [(''address'', JStr ''0xA''), (''poolAddress'', JStr ''0xB''),
                (''ticker'', JStr ''TKN''), (''name'', JStr ''Token'')])
      (JObject [(''price'', JNum 2), (''marketCap'', JNum 500), (''liquidity'', JNum 30),
                (''volume24h'', JNum 0), (''dexId'', JStr ''unknown'')])
      (storage_constructor,
       \<lparr> clock = 10000,
         supabase = \<lparr> initialized = True, available = True, reachable = True,
                      token_prices = [], bot_config = [] \<rparr>,
         memoryStorage = memory_constructor \<rparr>)) = Inr r) \<and>
   saveTokenPrice
      (JObject [(''address'', JStr ''''), (''poolAddress'', JStr ''0xB''),
                (''ticker'', JStr ''TKN'')])
      (JObject [(''price'', JNum 2), (''marketCap'', JNum 500), (''liquidity'', JNum 30)])
      (storage_constructor,
       \<lparr> clock = 10000,
         supabase = \<lparr> initialized = True, available = True, reachable = True,
                      token_prices = [], bot_config = [] \<rparr>,
         memoryStorage = memory_constructor \<rparr>)
   = (Inl InvalidPriceData, storage_constructor,
       \<lparr> clock = 10000,
         supabase = \<lparr> initialized = True, available = True, reachable = True,
                      token_prices = [], bot_config = [] \<rparr>,
         memoryStorage = memory_constructor \<rparr>) \<and>
   fst (updateConfig (JStr ''ui_mode'') (JStr ''text'')
      (storage_constructor,
       \<lparr> clock = 10000,
         supabase = \<lparr> initialized = True, available = True, reachable = True,
                      token_prices = [], bot_config = [] \<rparr>,
         memoryStorage = memory_constructor \<rparr>)) = Inr True \<and>
   updateConfig (JStr ''ui_mode'') JUndefined
      (storage_constructor,
       \<lparr> clock = 10000,
         supabase = \<lparr> initialized = True, available = True, reachable = True,
                      token_prices = [], bot_config = [] \<rparr>,
         memoryStorage = memory_constructor \<rparr>)
   = (Inl InvalidConfigData, storage_constructor,
       \<lparr> clock = 10000,
         supabase = \<lparr> initialized = True, available = True, reachable = True,
                      token_prices = [], bot_config = [] \<rparr>,
         memoryStorage = memory_constructor \<rparr>)"
proof -
  let ?st = "\<lparr> clock = 10000,
         supabase = \<lparr> initialized = True, available = True, reachable = True,
                      token_prices = [], bot_config = [] \<rparr>,
         memoryStorage = memory_constructor \<rparr>"
  let ?tok = "JObject [(''address'', JStr ''0xA''), (''poolAddress'', JStr ''0xB''),
                (''ticker'', JStr ''TKN''), (''name'', JStr ''Token'')]"
  let ?pr = "JObject [(''price'', JNum 2), (''marketCap'', JNum 500), (''liquidity'', JNum 30),
                (''volume24h'', JNum 0), (''dexId'', JStr ''unknown'')]"
  let ?bad = "JObject [(''address'', JStr ''''), (''poolAddress'', JStr ''0xB''),
                (''ticker'', JStr ''TKN'')]"
  let ?pr' = "JObject [(''price'', JNum 2), (''marketCap'', JNum 500), (''liquidity'', JNum 30)]"
  have ok: "storage_validateData ?tok ''token''" "storage_validateData ?pr ''price''"
    "storage_validateData (JObject [(''key'', JStr ''ui_mode''), (''value'', JStr ''text'')]) ''config''"
    by (simp_all add: storage_validateData_def)
  have bad: "\<not> storage_validateData ?bad ''token''"
    "\<not> storage_validateData (JObject [(''key'', JStr ''ui_mode''), (''value'', JUndefined)]) ''config''"
    by (simp_all add: storage_validateData_def)
  show ?thesis
    using validated_before_accepted [of ?tok ?pr "JStr ''ui_mode''" "JStr ''text''"
            "storage_constructor :: sync_op storage_service" ?st]
          validated_before_accepted [of ?bad ?pr' "JStr ''ui_mode''" JUndefined
            "storage_constructor :: sync_op storage_service" ?st]
          ok bad
    by simp
qed

text \<open>
  Claim C8 has a write accepted when its required fields are all present and its numeric
  fields are true numbers. The price below, which the caller of the facade builds when
  the exchange reports no liquidity, has every required field, and its liquidity is the
  number 0. \<open>saveTokenPrice\<close> refuses it with the invalid-data error and leaves the facade
  and both stores as they were: the check tests the field for truthiness, and 0 is not
  truthy. The check of a configuration value, in the same function, tests for
  \<open>undefined\<close> and accepts the number 0.
\<close>

theorem zero_liquidity_rejected:
  "getp (JObject [(''price'', JNum 2), (''marketCap'', JNum 500), (''liquidity'', JNum 0),
                  (''volume24h'', JNum 0), (''dexId'', JStr ''unknown'')]) ''liquidity'' = JNum 0 \<and>
   typeof (JNum 0) = ''number'' \<and>
   saveTokenPrice
     (JObject [(''address'', JStr ''0xA''), (''poolAddress'', JStr ''0xB''),
               (''ticker'', JStr ''TKN''), (''name'', JStr ''Token'')])
     (JObject [(''price'', JNum 2), (''marketCap'', JNum 500), (''liquidity'', JNum 0),
               (''volume24h'', JNum 0), (''dexId'', JStr ''unknown'')])
     (storage_constructor,
      \<lparr> clock = 10000,
        supabase = \<lparr> initialized = True, available = True, reachable = True,
                     token_prices = [], bot_config = [] \<rparr>,
        memoryStorage = memory_constructor \<rparr>)
   = (Inl InvalidPriceData, storage_constructor,
      \<lparr> clock = 10000,
        supabase = \<lparr> initialized = True, available = True, reachable = True,
                     token_prices = [], bot_config = [] \<rparr>,
        memoryStorage = memory_constructor \<rparr>) \<and>
   storage_validateData (JObject [(''key'', JStr ''min_liquidity''), (''value'', JNum 0)])
     ''config''"
  by (simp add: saveTokenPrice_def storage_validateData_def)

theorem zero_liquidity_rejected_witness:
  "fst (saveTokenPrice
     (JObject [(''address'', JStr ''0xA''), (''poolAddress'', JStr ''0xB''),
               (''ticker'', JStr ''TKN''), (''name'', JStr ''Token'')])
     (JObject [(''price'', JNum 2), (''marketCap'', JNum 500), (''liquidity'', JNum 0),
               (''volume24h'', JNum 0), (''dexId'', JStr ''unknown'')])
     (storage_constructor,
      \<lparr> clock = 10000,
        supabase = \<lparr> initialized = True, available = True, reachable = True,
                     token_prices = [], bot_config = [] \<rparr>,
        memoryStorage = memory_constructor \<rparr>)) = Inl InvalidPriceData \<and>
   token_prices (supabase (snd (snd (saveTokenPrice
     (JObject [(''address'', JStr ''0xA''), (''poolAddress'', JStr ''0xB''),
               (''ticker'', JStr ''TKN''), (''name'', JStr ''Token'')])
     (JObject [(''price'', JNum 2), (''marketCap'', JNum 500), (''liquidity'', JNum 0),
               (''volume24h'', JNum 0), (''dexId'', JStr ''unknown'')])
     (storage_constructor,
      \<lparr> clock = 10000,
        supabase = \<lparr> initialized = True, available = True, reachable = True,
                     token_prices = [], bot_config = [] \<rparr>,
        memoryStorage = memory_constructor \<rparr>))))) = []"
  using zero_liquidity_rejected by simp

end
